theory Spec2Isabelle
  imports Main "HOL-Library.Word"
begin

unbundle bit_operations_syntax

section \<open>Machine types and constants of the disk layer\<close>

text \<open>
  The embedding follows \<^verbatim>\<open>grub-core/kern/disk.c\<close>. The integer types of
  \<^verbatim>\<open>grub/types.h\<close> are words: \<^verbatim>\<open>grub_uint64_t\<close>, \<^verbatim>\<open>grub_disk_addr_t\<close>
  and \<^verbatim>\<open>grub_off_t\<close> are 64 bits wide, \<^verbatim>\<open>unsigned\<close> is 32 bits wide, and
  \<^verbatim>\<open>unsigned long\<close> and \<^verbatim>\<open>grub_size_t\<close> are 64 bits wide (an LP64 target such
  as x86_64-efi). All word arithmetic wraps around, as unsigned C arithmetic does.
\<close>

type_synonym grub_uint64_t = "64 word"
type_synonym grub_disk_addr_t = "64 word"
type_synonym grub_off_t = "64 word"
type_synonym grub_size_t = "64 word"
type_synonym ulong = "64 word"
type_synonym uint = "32 word"
type_synonym byte = "8 word"

text \<open>
  Modelled from the spec: the macros of \<^verbatim>\<open>grub/disk.h\<close>, which is not part of the
  sources at hand. A logical sector has \<open>2 ^ 9 = 512\<close> bytes
  (\<^verbatim>\<open>LOGICAL_SECTOR_BITS = 9\<close>), a cache cluster has \<open>2 ^ 6 = 64\<close> logical sectors
  (\<^verbatim>\<open>CACHE_BITS\<close>, "typically 6"), the cache table has 1021 slots
  (\<^verbatim>\<open>CACHE_SLOTS\<close>, "prime, e.g. 1021"), and an unknown disk size is the all-ones
  64-bit value.
\<close>

abbreviation GRUB_DISK_SECTOR_BITS :: nat where
  "GRUB_DISK_SECTOR_BITS \<equiv> 9"

abbreviation GRUB_DISK_SECTOR_SIZE :: "64 word" where
  "GRUB_DISK_SECTOR_SIZE \<equiv> 0x200"

abbreviation GRUB_DISK_CACHE_BITS :: nat where
  "GRUB_DISK_CACHE_BITS \<equiv> 6"

abbreviation GRUB_DISK_CACHE_SIZE :: "64 word" where
  "GRUB_DISK_CACHE_SIZE \<equiv> 64"

abbreviation GRUB_DISK_CACHE_NUM :: nat where
  "GRUB_DISK_CACHE_NUM \<equiv> 1021"

abbreviation GRUB_DISK_SIZE_UNKNOWN :: "64 word" where
  "GRUB_DISK_SIZE_UNKNOWN \<equiv> 0xffffffffffffffff"

text \<open>The number of bytes of one cache cluster, \<^verbatim>\<open>GRUB_DISK_SECTOR_SIZE << GRUB_DISK_CACHE_BITS\<close>.\<close>

abbreviation CLUSTER_BYTES :: nat where
  "CLUSTER_BYTES \<equiv> 32768"

section \<open>The sector cache\<close>

text \<open>
  \<^verbatim>\<open>struct grub_disk_cache\<close>. The buffer pointer \<^verbatim>\<open>data\<close> is an optional byte
  list (\<open>None\<close> is the null pointer), the \<^verbatim>\<open>int lock\<close> is a flag. The field
  \<^verbatim>\<open>dev_id\<close> is an enumeration in the source; every function of the cache takes
  the identifier as \<^verbatim>\<open>unsigned long\<close> and compares at that type, so the field is
  kept at that width.
\<close>

record grub_disk_cache =
  dev_id :: ulong
  disk_id :: ulong
  sector :: grub_disk_addr_t
  data :: "byte list option"
  lock :: bool

text \<open>
  \<^verbatim>\<open>grub_disk_cache_table\<close>: a static array of \<^verbatim>\<open>GRUB_DISK_CACHE_NUM\<close> entries,
  as a store from slot numbers to entries. Static storage is zero-initialised.
\<close>

type_synonym cache_table = "nat \<Rightarrow> grub_disk_cache"

definition empty_slot :: grub_disk_cache where
  "empty_slot = \<lparr>dev_id = 0, disk_id = 0, sector = 0, data = None, lock = False\<rparr>"

definition initial_table :: cache_table where
  "initial_table = (\<lambda>_. empty_slot)"

text \<open>
  \<^verbatim>\<open>grub_disk_cache_get_index\<close>. The sum is computed at \<^verbatim>\<open>unsigned long\<close>; the
  shifted sector is first cast to \<^verbatim>\<open>unsigned\<close>, which keeps its low 32 bits.
\<close>

definition grub_disk_cache_get_index :: "ulong \<Rightarrow> ulong \<Rightarrow> grub_disk_addr_t \<Rightarrow> uint" where
  "grub_disk_cache_get_index dev disk sec =
     ucast ((dev * 524287 + disk * 2606459
             + ucast (ucast (drop_bit GRUB_DISK_CACHE_BITS sec) :: uint))
            mod 1021)"

text \<open>The slot number as an array index.\<close>

definition slot_of :: "ulong \<Rightarrow> ulong \<Rightarrow> grub_disk_addr_t \<Rightarrow> nat" where
  "slot_of dev disk sec = unat (grub_disk_cache_get_index dev disk sec)"

text \<open>The test shared by all cache operations: the three key fields of the slot agree.\<close>

definition key_match :: "grub_disk_cache \<Rightarrow> ulong \<Rightarrow> ulong \<Rightarrow> grub_disk_addr_t \<Rightarrow> bool" where
  "key_match c dev disk sec \<longleftrightarrow> dev_id c = dev \<and> disk_id c = disk \<and> sector c = sec"

text \<open>\<^verbatim>\<open>grub_disk_cache_invalidate\<close>.\<close>

definition grub_disk_cache_invalidate ::
  "ulong \<Rightarrow> ulong \<Rightarrow> grub_disk_addr_t \<Rightarrow> cache_table \<Rightarrow> cache_table" where
  "grub_disk_cache_invalidate dev disk sec tbl =
     (let sec' = sec AND NOT (GRUB_DISK_CACHE_SIZE - 1);
          index = slot_of dev disk sec';
          cache = tbl index
      in if key_match cache dev disk sec' \<and> data cache \<noteq> None
         then tbl(index := cache\<lparr>data := None, lock := False\<rparr>)
         else tbl)"

text \<open>\<^verbatim>\<open>grub_disk_cache_invalidate_all\<close>: the loop over all slots of the table.\<close>

definition grub_disk_cache_invalidate_all :: "cache_table \<Rightarrow> cache_table" where
  "grub_disk_cache_invalidate_all tbl =
     (\<lambda>i. if i < GRUB_DISK_CACHE_NUM \<and> data (tbl i) \<noteq> None \<and> \<not> lock (tbl i)
          then (tbl i)\<lparr>data := None\<rparr>
          else tbl i)"

text \<open>
  \<^verbatim>\<open>grub_disk_cache_fetch\<close>: returns the buffer pointer of the slot (possibly
  null) and the table with the slot locked when the key fields agree, a null
  pointer and the unchanged table otherwise.
\<close>

definition grub_disk_cache_fetch ::
  "ulong \<Rightarrow> ulong \<Rightarrow> grub_disk_addr_t \<Rightarrow> cache_table \<Rightarrow> byte list option \<times> cache_table" where
  "grub_disk_cache_fetch dev disk sec tbl =
     (let index = slot_of dev disk sec;
          cache = tbl index
      in if key_match cache dev disk sec
         then (data cache, tbl(index := cache\<lparr>lock := True\<rparr>))
         else (None, tbl))"

text \<open>\<^verbatim>\<open>grub_disk_cache_unlock\<close>.\<close>

definition grub_disk_cache_unlock ::
  "ulong \<Rightarrow> ulong \<Rightarrow> grub_disk_addr_t \<Rightarrow> cache_table \<Rightarrow> cache_table" where
  "grub_disk_cache_unlock dev disk sec tbl =
     (let index = slot_of dev disk sec;
          cache = tbl index
      in if key_match cache dev disk sec
         then tbl(index := cache\<lparr>lock := False\<rparr>)
         else tbl)"

section \<open>Errors, the allocator and the global state\<close>

text \<open>
  \<^verbatim>\<open>grub_err_t\<close>. The codes used by the disk layer are named; \<open>GRUB_ERR_CODE\<close>
  stands for any other numeric value of the type (\<^verbatim>\<open>grub_disk_write\<close> returns the
  literal \<open>-1\<close>).
\<close>

datatype grub_err_t =
    GRUB_ERR_NONE
  | GRUB_ERR_OUT_OF_MEMORY
  | GRUB_ERR_UNKNOWN_DEVICE
  | GRUB_ERR_NOT_IMPLEMENTED_YET
  | GRUB_ERR_OUT_OF_RANGE
  | GRUB_ERR_BAD_ARGUMENT
  | GRUB_ERR_READ_ERROR
  | GRUB_ERR_WRITE_ERROR
  | GRUB_ERR_IO
  | GRUB_ERR_CODE int

text \<open>
  The calls that leave the disk layer, in the order in which they are made:
  driver \<^verbatim>\<open>open\<close> (with the number of the driver in the list and the name it
  receives), driver \<^verbatim>\<open>close\<close>, the partition prober (with the partition
  specification it receives), driver \<^verbatim>\<open>read\<close> and \<^verbatim>\<open>write\<close> (native sector
  and number of native sectors), and the read hook (sector, offset, length). The
  calls of \<^verbatim>\<open>grub_disk_cache_invalidate\<close> made by \<^verbatim>\<open>grub_disk_write\<close> are
  recorded too, so that their order relative to the driver writes can be read off.
\<close>

datatype event =
    Ev_dev_open nat string
  | Ev_dev_close
  | Ev_partition_probe string
  | Ev_dev_read grub_disk_addr_t grub_size_t
  | Ev_dev_write grub_disk_addr_t grub_size_t
  | Ev_cache_invalidate grub_disk_addr_t
  | Ev_read_hook grub_disk_addr_t grub_off_t grub_size_t

text \<open>
  The global state: the cache table, \<^verbatim>\<open>grub_errno\<close> with the format and the
  string arguments of the last \<^verbatim>\<open>grub_error\<close>, \<^verbatim>\<open>grub_last_time\<close>, the
  outcomes of the coming allocations (\<open>mm\<close>), the state \<open>hw\<close> of the device behind
  the driver, and the calls made so far.
\<close>

record 'h grub_state =
  grub_disk_cache_table :: cache_table
  grub_errno :: grub_err_t
  grub_errmsg :: "string \<times> string list"
  grub_last_time :: grub_uint64_t
  mm :: "bool list"
  hw :: 'h
  events :: "event list"

text \<open>
  Modelled from the spec: \<^verbatim>\<open>grub_error\<close> of \<^verbatim>\<open>kern/err.c\<close>, which is not part of
  the sources at hand ("the source uses a thread-local errno plus return
  codes"). It records the code and the message and returns the code.
\<close>

definition grub_error :: "grub_err_t \<Rightarrow> string \<Rightarrow> string list \<Rightarrow> 'h grub_state \<Rightarrow> 'h grub_state" where
  "grub_error n fmt args st = st\<lparr>grub_errno := n, grub_errmsg := (fmt, args)\<rparr>"

text \<open>
  Modelled from the spec: \<^verbatim>\<open>grub_malloc\<close> of \<^verbatim>\<open>kern/mm.c\<close>, which is not part of
  the sources at hand. An allocation either succeeds or fails with
  \<^verbatim>\<open>OUT_OF_MEMORY\<close> ("allocation failure (temporary buffer or cache buffer)"); a
  failed call leaves that code in \<^verbatim>\<open>grub_errno\<close>, which is what the callers in
  \<^verbatim>\<open>disk.c\<close> return after a null result. The outcome of each call is read from
  the list \<open>mm\<close>; once the list is used up every allocation succeeds.
\<close>

definition grub_malloc :: "'h grub_state \<Rightarrow> bool \<times> 'h grub_state" where
  "grub_malloc st =
     (case mm st of
        [] \<Rightarrow> (True, st)
      | ok # rest \<Rightarrow>
          (ok, st\<lparr>mm := rest,
                  grub_errno := (if ok then grub_errno st else GRUB_ERR_OUT_OF_MEMORY)\<rparr>))"

text \<open>
  \<^verbatim>\<open>grub_disk_cache_store\<close>: the slot is emptied and unlocked, then a cluster
  buffer is allocated. When the allocation fails the function returns
  \<^verbatim>\<open>grub_errno\<close> and the slot keeps its old key fields with a null buffer;
  otherwise one cluster of bytes is copied and the key fields are set.
\<close>

definition grub_disk_cache_store ::
  "ulong \<Rightarrow> ulong \<Rightarrow> grub_disk_addr_t \<Rightarrow> byte list \<Rightarrow> 'h grub_state \<Rightarrow> grub_err_t \<times> 'h grub_state" where
  "grub_disk_cache_store dev disk sec buf st =
     (let index = slot_of dev disk sec;
          cache = (grub_disk_cache_table st index)\<lparr>data := None, lock := False\<rparr>;
          st1 = st\<lparr>grub_disk_cache_table := (grub_disk_cache_table st)(index := cache)\<rparr>;
          (ok, st2) = grub_malloc st1
      in if \<not> ok then (grub_errno st2, st2)
         else (GRUB_ERR_NONE,
               st2\<lparr>grub_disk_cache_table := (grub_disk_cache_table st2)
                     (index := cache\<lparr>data := Some (take CLUSTER_BYTES buf),
                                      dev_id := dev, disk_id := disk, sector := sec\<rparr>)\<rparr>))"

section \<open>Disks, partitions and drivers\<close>

text \<open>
  \<^verbatim>\<open>struct grub_partition\<close>: the fields the disk layer reads. The chain that
  starts at \<^verbatim>\<open>disk->partition\<close> and follows \<^verbatim>\<open>parent\<close> is a list, innermost
  partition first; the empty list is the null pointer.
\<close>

record grub_partition =
  start :: grub_disk_addr_t
  len :: grub_uint64_t

text \<open>
  \<^verbatim>\<open>struct grub_disk\<close>. \<open>ident\<close> is the field \<^verbatim>\<open>id\<close>, \<open>read_hook\<close> tells whether
  the hook pointer is set. The driver of the disk (\<^verbatim>\<open>disk->dev\<close>) is passed to the
  functions below beside the disk.
\<close>

record grub_disk =
  name :: string
  ident :: ulong
  total_sectors :: grub_uint64_t
  log_sector_size :: nat
  partition :: "grub_partition list"
  read_hook :: bool

text \<open>
  \<^verbatim>\<open>struct grub_disk_dev\<close>: the identifier of the driver and its entry points,
  as functions of the state \<open>'h\<close> of the device. Each returns an error code;
  \<open>dev_read\<close> also returns the bytes it has put into the buffer.
\<close>

record 'h grub_disk_dev =
  dev_ident :: ulong
  dev_open :: "string \<Rightarrow> grub_disk \<Rightarrow> 'h \<Rightarrow> grub_err_t \<times> grub_disk \<times> 'h"
  dev_read :: "'h \<Rightarrow> grub_disk \<Rightarrow> grub_disk_addr_t \<Rightarrow> grub_size_t \<Rightarrow> grub_err_t \<times> byte list \<times> 'h"
  dev_write :: "'h \<Rightarrow> grub_disk \<Rightarrow> grub_disk_addr_t \<Rightarrow> grub_size_t \<Rightarrow> byte list \<Rightarrow> grub_err_t \<times> 'h"

text \<open>
  A call of \<^verbatim>\<open>dev->read\<close> and of \<^verbatim>\<open>dev->write\<close>. A driver that fails returns
  the code it has left in \<^verbatim>\<open>grub_errno\<close> (it returns the result of
  \<^verbatim>\<open>grub_error\<close>); a driver that succeeds leaves \<^verbatim>\<open>grub_errno\<close> alone.
\<close>

definition call_dev_read ::
  "'h grub_disk_dev \<Rightarrow> grub_disk \<Rightarrow> grub_disk_addr_t \<Rightarrow> grub_size_t \<Rightarrow> 'h grub_state
     \<Rightarrow> grub_err_t \<times> byte list \<times> 'h grub_state" where
  "call_dev_read dev disk sec n st =
     (let (err, bytes, h) = dev_read dev (hw st) disk sec n
      in (err, bytes,
          st\<lparr>hw := h,
             grub_errno := (if err = GRUB_ERR_NONE then grub_errno st else err),
             events := events st @ [Ev_dev_read sec n]\<rparr>))"

definition call_dev_write ::
  "'h grub_disk_dev \<Rightarrow> grub_disk \<Rightarrow> grub_disk_addr_t \<Rightarrow> grub_size_t \<Rightarrow> byte list \<Rightarrow> 'h grub_state
     \<Rightarrow> grub_err_t \<times> 'h grub_state" where
  "call_dev_write dev disk sec n buf st =
     (let (err, h) = dev_write dev (hw st) disk sec n buf
      in (err,
          st\<lparr>hw := h,
             grub_errno := (if err = GRUB_ERR_NONE then grub_errno st else err),
             events := events st @ [Ev_dev_write sec n]\<rparr>))"

section \<open>The partition walker\<close>

text \<open>
  The loop of \<^verbatim>\<open>grub_disk_adjust_range\<close> over the partition chain. The result
  tells whether the range is inside every partition, with the value of
  \<^verbatim>\<open>*sector\<close> when the loop is left.
\<close>

fun adjust_partitions ::
  "grub_partition list \<Rightarrow> grub_disk_addr_t \<Rightarrow> grub_off_t \<Rightarrow> grub_size_t \<Rightarrow> bool \<times> grub_disk_addr_t" where
  "adjust_partitions [] sec off sz = (True, sec)"
| "adjust_partitions (part # parent) sec off sz =
     (if len part \<le> sec
         \<or> len part - sec < drop_bit GRUB_DISK_SECTOR_BITS (off + sz + GRUB_DISK_SECTOR_SIZE - 1)
      then (False, sec)
      else adjust_partitions parent (sec + start part) off sz)"

text \<open>
  \<^verbatim>\<open>grub_disk_adjust_range\<close>: the error code with the values left in
  \<^verbatim>\<open>*sector\<close> and \<^verbatim>\<open>*offset\<close>.
\<close>

definition grub_disk_adjust_range ::
  "grub_disk \<Rightarrow> grub_disk_addr_t \<Rightarrow> grub_off_t \<Rightarrow> grub_size_t \<Rightarrow> 'h grub_state
     \<Rightarrow> grub_err_t \<times> grub_disk_addr_t \<times> grub_off_t \<times> 'h grub_state" where
  "grub_disk_adjust_range disk sec off sz st =
     (let sec1 = sec + drop_bit GRUB_DISK_SECTOR_BITS off;
          off1 = off AND (GRUB_DISK_SECTOR_SIZE - 1);
          (inside, sec2) = adjust_partitions (partition disk) sec1 off1 sz;
          total = push_bit (log_sector_size disk - GRUB_DISK_SECTOR_BITS) (total_sectors disk)
      in if \<not> inside
         then (GRUB_ERR_OUT_OF_RANGE, sec2, off1,
               grub_error GRUB_ERR_OUT_OF_RANGE
                 ''attempt to read or write outside of partition'' [] st)
         else if total_sectors disk \<noteq> GRUB_DISK_SIZE_UNKNOWN
                 \<and> (total \<le> sec2
                     \<or> drop_bit GRUB_DISK_SECTOR_BITS (off1 + sz + GRUB_DISK_SECTOR_SIZE - 1)
                         > total - sec2)
         then (GRUB_ERR_OUT_OF_RANGE, sec2, off1,
               grub_error GRUB_ERR_OUT_OF_RANGE
                 (''attempt to read or write outside of disk `%s'' @ [CHR 0x27]) [name disk] st)
         else (GRUB_ERR_NONE, sec2, off1, st))"

text \<open>\<^verbatim>\<open>transform_sector\<close>: from logical to native sectors.\<close>

definition transform_sector :: "grub_disk \<Rightarrow> grub_disk_addr_t \<Rightarrow> grub_disk_addr_t" where
  "transform_sector disk sec = drop_bit (log_sector_size disk - GRUB_DISK_SECTOR_BITS) sec"

section \<open>The read engine\<close>

text \<open>
  The second half of \<^verbatim>\<open>grub_disk_read_small\<close>, entered when the read of the
  whole cluster has failed or has been skipped. It first computes which native
  sectors hold the requested bytes: the aligned sector, the offset of the
  bytes from it, and the number \<^verbatim>\<open>num\<close> of native sectors (an \<^verbatim>\<open>unsigned\<close>).
\<close>

definition fallback_window ::
  "grub_disk \<Rightarrow> grub_disk_addr_t \<Rightarrow> grub_off_t \<Rightarrow> grub_size_t
     \<Rightarrow> grub_disk_addr_t \<times> grub_off_t \<times> uint" where
  "fallback_window disk sec off sz =
     (let sec1 = sec + drop_bit GRUB_DISK_SECTOR_BITS off;
          off1 = off AND (push_bit GRUB_DISK_SECTOR_BITS 1 - 1);
          aligned_sector =
            sec1 AND NOT (push_bit (log_sector_size disk - GRUB_DISK_SECTOR_BITS) 1 - 1);
          off2 = off1 + push_bit GRUB_DISK_SECTOR_BITS (sec1 - aligned_sector);
          num = (ucast (drop_bit (log_sector_size disk)
                          (sz + off2 + push_bit (log_sector_size disk) 1 - 1)) :: uint)
      in (aligned_sector, off2, num))"

text \<open>
  Then \<^verbatim>\<open>grub_errno\<close> is cleared, a buffer is allocated and only those native
  sectors are read. Nothing is stored in the cache. The results are the error
  code, the bytes copied into the caller's buffer and the state.
\<close>

definition read_small_fallback ::
  "'h grub_disk_dev \<Rightarrow> grub_disk \<Rightarrow> grub_disk_addr_t \<Rightarrow> grub_off_t \<Rightarrow> grub_size_t \<Rightarrow> 'h grub_state
     \<Rightarrow> grub_err_t \<times> byte list \<times> 'h grub_state" where
  "read_small_fallback dev disk sec off sz st =
     (let st0 = st\<lparr>grub_errno := GRUB_ERR_NONE\<rparr>;
          (aligned_sector, off2, num) = fallback_window disk sec off sz;
          (ok, st1) = grub_malloc st0
      in if \<not> ok then (grub_errno st1, [], st1)
         else
           (let (err, tmp_buf, st2) =
                  call_dev_read dev disk (transform_sector disk aligned_sector) (ucast num) st1
            in if err \<noteq> GRUB_ERR_NONE then (grub_errno st2, [], st2)
               else (GRUB_ERR_NONE, take (unat sz) (drop (unat off2) tmp_buf), st2)))"

text \<open>
  \<^verbatim>\<open>grub_disk_read_small\<close>: a read inside one cache cluster; \<open>sec\<close> is the first
  sector of the cluster.
\<close>

definition grub_disk_read_small ::
  "'h grub_disk_dev \<Rightarrow> grub_disk \<Rightarrow> grub_disk_addr_t \<Rightarrow> grub_off_t \<Rightarrow> grub_size_t \<Rightarrow> 'h grub_state
     \<Rightarrow> grub_err_t \<times> byte list \<times> 'h grub_state" where
  "grub_disk_read_small dev disk sec off sz st =
     (case grub_disk_cache_fetch (dev_ident dev) (ident disk) sec (grub_disk_cache_table st) of
        (Some cached, tbl) \<Rightarrow>
          (GRUB_ERR_NONE, take (unat sz) (drop (unat off) cached),
           st\<lparr>grub_disk_cache_table :=
                 grub_disk_cache_unlock (dev_ident dev) (ident disk) sec tbl\<rparr>)
      | (None, tbl) \<Rightarrow>
          (let (ok, st1) = grub_malloc (st\<lparr>grub_disk_cache_table := tbl\<rparr>)
           in if \<not> ok then (grub_errno st1, [], st1)
              else if total_sectors disk = GRUB_DISK_SIZE_UNKNOWN
                      \<or> sec + GRUB_DISK_CACHE_SIZE
                          < push_bit (log_sector_size disk - GRUB_DISK_SECTOR_BITS) (total_sectors disk)
              then
                (let (err, tmp_buf, st2) =
                       call_dev_read dev disk (transform_sector disk sec)
                         (push_bit (GRUB_DISK_CACHE_BITS + GRUB_DISK_SECTOR_BITS - log_sector_size disk) 1)
                         st1
                 in if err = GRUB_ERR_NONE
                    then (GRUB_ERR_NONE, take (unat sz) (drop (unat off) tmp_buf),
                          snd (grub_disk_cache_store (dev_ident dev) (ident disk) sec tmp_buf st2))
                    else read_small_fallback dev disk sec off sz st2)
              else read_small_fallback dev disk sec off sz st1))"

text \<open>
  The first part of \<^verbatim>\<open>grub_disk_read\<close>: the read up to the first cluster
  boundary. The results are the error code, the bytes delivered, the values of
  \<^verbatim>\<open>sector\<close>, \<^verbatim>\<open>offset\<close> and \<^verbatim>\<open>size\<close> afterwards, and the state.
\<close>

definition read_head ::
  "'h grub_disk_dev \<Rightarrow> grub_disk \<Rightarrow> grub_disk_addr_t \<Rightarrow> grub_off_t \<Rightarrow> grub_size_t \<Rightarrow> 'h grub_state
     \<Rightarrow> grub_err_t \<times> byte list \<times> grub_disk_addr_t \<times> grub_off_t \<times> grub_size_t \<times> 'h grub_state" where
  "read_head dev disk sec off sz st =
     (if off \<noteq> 0 \<or> sec AND (GRUB_DISK_CACHE_SIZE - 1) \<noteq> 0
      then
        (let start_sector = sec AND NOT (GRUB_DISK_CACHE_SIZE - 1);
             pos = push_bit GRUB_DISK_SECTOR_BITS (sec - start_sector);
             ln0 = push_bit GRUB_DISK_CACHE_BITS GRUB_DISK_SECTOR_SIZE - pos - off;
             ln = (if ln0 > sz then sz else ln0);
             (err, out, st1) = grub_disk_read_small dev disk start_sector (off + pos) ln st
         in if err \<noteq> GRUB_ERR_NONE then (err, out, sec, off, sz, st1)
            else
              (let off1 = off + ln
               in (GRUB_ERR_NONE, out, sec + drop_bit GRUB_DISK_SECTOR_BITS off1,
                   off1 AND (push_bit GRUB_DISK_SECTOR_BITS 1 - 1), sz - ln, st1)))
      else (GRUB_ERR_NONE, [], sec, off, sz, st))"

text \<open>
  The scan of the agglomeration loop: clusters are fetched one after the other
  until one is cached or \<open>limit\<close> clusters have been tried. The results are the
  last value of \<^verbatim>\<open>data\<close>, the counter \<^verbatim>\<open>agglomerate\<close> and the cache table.
\<close>

function agglomerate_scan ::
  "ulong \<Rightarrow> ulong \<Rightarrow> grub_disk_addr_t \<Rightarrow> grub_disk_addr_t \<Rightarrow> grub_disk_addr_t \<Rightarrow> cache_table
     \<Rightarrow> byte list option \<times> grub_disk_addr_t \<times> cache_table" where
  "agglomerate_scan dev disk sec limit agglomerate tbl =
     (if agglomerate < limit
      then (case grub_disk_cache_fetch dev disk
                   (sec + push_bit GRUB_DISK_CACHE_BITS agglomerate) tbl of
              (Some cached, tbl') \<Rightarrow> (Some cached, agglomerate, tbl')
            | (None, tbl') \<Rightarrow> agglomerate_scan dev disk sec limit (agglomerate + 1) tbl')
      else (None, agglomerate, tbl))"
  by pat_completeness auto

termination
proof (relation "measure (\<lambda>(dev, disk, sec, limit, agglomerate, tbl). unat limit - unat agglomerate)",
    goal_cases)
  case 1
  show ?case by simp
next
  case (2 dev disk sec limit agglomerate)
  then have less: "unat agglomerate < unat limit"
    by (simp add: word_less_nat_alt)
  moreover have "unat limit < 2 ^ 64"
    using unsigned_less [of limit] by simp
  ultimately have "unat (agglomerate + 1) = unat agglomerate + 1"
    by (simp add: unat_word_ariths)
  with less show ?case
    by simp
qed

declare agglomerate_scan.simps [simp del]

lemma agglomerate_scan_bound:
  "agglomerate_scan dev disk sec limit a tbl = (cached, a', tbl') \<Longrightarrow> a \<le> limit \<Longrightarrow>
     a' \<le> limit \<and> (cached \<noteq> None \<longrightarrow> a' < limit) \<and> (cached = None \<longrightarrow> a' = limit)"
proof (induction dev disk sec limit a tbl rule: agglomerate_scan.induct)
  case (1 dev disk sec limit agglomerate tbl)
  show ?case
  proof (cases "agglomerate < limit")
    case False
    with "1.prems" show ?thesis
      by (simp add: agglomerate_scan.simps [of dev disk sec limit agglomerate tbl])
  next
    case True
    obtain r tbl1 where f: "grub_disk_cache_fetch dev disk (sec + push_bit 6 agglomerate) tbl = (r, tbl1)"
      by (cases "grub_disk_cache_fetch dev disk (sec + push_bit 6 agglomerate) tbl")
    show ?thesis
    proof (cases r)
      case (Some d)
      with True f "1.prems" show ?thesis
        by (auto simp add: agglomerate_scan.simps [of dev disk sec limit agglomerate tbl])
    next
      case None
      from True have "agglomerate + 1 \<le> limit"
        by (simp add: inc_le)
      moreover from True f None "1.prems"
      have "agglomerate_scan dev disk sec limit (agglomerate + 1) tbl1 = (cached, a', tbl')"
        by (simp add: agglomerate_scan.simps [of dev disk sec limit agglomerate tbl])
      ultimately show ?thesis
        using "1.IH" [OF True f [symmetric] None] by simp
    qed
  qed
qed

text \<open>
  The loop that populates the cache after an agglomerated read: one
  \<^verbatim>\<open>grub_disk_cache_store\<close> per cluster, from the bytes at
  \<^verbatim>\<open>buf + (i << (GRUB_DISK_CACHE_BITS + GRUB_DISK_SECTOR_BITS))\<close>. The result of the
  store is not looked at.
\<close>

definition store_clusters ::
  "'h grub_disk_dev \<Rightarrow> grub_disk \<Rightarrow> grub_disk_addr_t \<Rightarrow> byte list \<Rightarrow> nat \<Rightarrow> 'h grub_state \<Rightarrow> 'h grub_state" where
  "store_clusters dev disk sec buf agglomerate st =
     fold (\<lambda>i s. snd (grub_disk_cache_store (dev_ident dev) (ident disk)
                         (sec + push_bit GRUB_DISK_CACHE_BITS (of_nat i))
                         (drop (i * CLUSTER_BYTES) buf) s))
          [0..<agglomerate] st"

text \<open>
  One round of the loop \<^verbatim>\<open>while (size >= (GRUB_DISK_CACHE_SIZE << GRUB_DISK_SECTOR_BITS))\<close>
  of \<^verbatim>\<open>grub_disk_read\<close>. The results are the error code, the bytes delivered
  in this round, the new values of \<^verbatim>\<open>sector\<close> and \<^verbatim>\<open>size\<close>, and the state.
\<close>

definition read_body_step ::
  "'h grub_disk_dev \<Rightarrow> grub_disk \<Rightarrow> grub_disk_addr_t \<Rightarrow> grub_size_t \<Rightarrow> 'h grub_state
     \<Rightarrow> grub_err_t \<times> byte list \<times> grub_disk_addr_t \<times> grub_size_t \<times> 'h grub_state" where
  "read_body_step dev disk sec sz st =
     (let (cached, agglomerate, tbl) =
            agglomerate_scan (dev_ident dev) (ident disk) sec
              (drop_bit (GRUB_DISK_SECTOR_BITS + GRUB_DISK_CACHE_BITS) sz) 0
              (grub_disk_cache_table st);
          hit = (case cached of None \<Rightarrow> [] | Some d \<Rightarrow> take CLUSTER_BYTES d);
          st1 = st\<lparr>grub_disk_cache_table :=
                     (case cached of
                        None \<Rightarrow> tbl
                      | Some d \<Rightarrow> grub_disk_cache_unlock (dev_ident dev) (ident disk)
                                    (sec + push_bit GRUB_DISK_CACHE_BITS agglomerate) tbl)\<rparr>;
          (err, out, sec1, sz1, st2) =
            (if agglomerate \<noteq> 0
             then
               (let (err, bytes, st2) =
                      call_dev_read dev disk (transform_sector disk sec)
                        (push_bit (GRUB_DISK_CACHE_BITS + GRUB_DISK_SECTOR_BITS - log_sector_size disk)
                           agglomerate) st1;
                    got = take (unat (push_bit (GRUB_DISK_CACHE_BITS + GRUB_DISK_SECTOR_BITS)
                                        agglomerate)) bytes
                in if err \<noteq> GRUB_ERR_NONE then (err, [], sec, sz, st2)
                   else (GRUB_ERR_NONE, got,
                         sec + push_bit GRUB_DISK_CACHE_BITS agglomerate,
                         sz - push_bit (GRUB_DISK_CACHE_BITS + GRUB_DISK_SECTOR_BITS) agglomerate,
                         store_clusters dev disk sec (got @ hit) (unat agglomerate) st2))
             else (GRUB_ERR_NONE, [], sec, sz, st1))
      in if err \<noteq> GRUB_ERR_NONE then (err, out, sec1, sz1, st2)
         else if cached \<noteq> None
         then (GRUB_ERR_NONE, out @ hit, sec1 + GRUB_DISK_CACHE_SIZE,
               sz1 - push_bit GRUB_DISK_SECTOR_BITS GRUB_DISK_CACHE_SIZE, st2)
         else (GRUB_ERR_NONE, out, sec1, sz1, st2))"

lemma unat_push_bit_bounded:
  "unat a * 2 ^ n < 2 ^ LENGTH('a) \<Longrightarrow> unat (push_bit n (a::'a::len word)) = unat a * 2 ^ n"
  by (subst unsigned_push_bit_eq) (simp add: take_bit_eq_mod push_bit_eq_mult)

lemma unat_drop_bit_div: "unat (drop_bit n (a::'a::len word)) = unat a div 2 ^ n"
  by (subst unat_drop_bit_eq) (simp add: drop_bit_eq_div)

lemma read_body_step_decreases:
  assumes big: "push_bit GRUB_DISK_SECTOR_BITS GRUB_DISK_CACHE_SIZE \<le> sz"
    and step: "read_body_step dev disk sec sz st = (GRUB_ERR_NONE, out, sec', sz', st')"
  shows "unat sz' < unat sz"
proof -
  let ?limit = "drop_bit (GRUB_DISK_SECTOR_BITS + GRUB_DISK_CACHE_BITS) sz"
  obtain cached a tbl where
    scan: "agglomerate_scan (dev_ident dev) (ident disk) sec ?limit 0 (grub_disk_cache_table st)
             = (cached, a, tbl)"
    by (cases "agglomerate_scan (dev_ident dev) (ident disk) sec ?limit 0 (grub_disk_cache_table st)")
  from agglomerate_scan_bound [OF scan]
  have a: "a \<le> ?limit" "cached \<noteq> None \<longrightarrow> a < ?limit" "cached = None \<longrightarrow> a = ?limit"
    by simp_all
  have lim: "unat ?limit = unat sz div 32768"
    by (simp add: unat_drop_bit_div)
  from big have sz: "32768 \<le> unat sz"
    by (simp add: word_le_nat_alt)
  have szlt: "unat sz < 2 ^ 64"
    using unsigned_less [of sz] by simp
  from a(1) lim have ale: "unat a * 32768 \<le> unat sz"
    by (simp add: word_le_nat_alt)
  with szlt have pa: "unat (push_bit 15 a) = unat a * 32768"
    by (simp add: unat_push_bit_bounded)
  with ale have ple: "push_bit 15 a \<le> sz"
    by (simp add: word_le_nat_alt)
  have sub: "unat (sz - push_bit 15 a) = unat sz - unat a * 32768"
    using ple pa by (simp add: unat_sub)
  show ?thesis
  proof (cases cached)
    case None
    with a(3) lim sz have "1 \<le> unat a" by simp
    then have "a \<noteq> 0" by (auto simp add: unat_eq_0)
    with None scan step have "sz' = sz - push_bit 15 a"
      by (auto simp add: read_body_step_def Let_def split: prod.splits if_splits)
    with sub \<open>1 \<le> unat a\<close> ale show ?thesis by simp
  next
    case (Some d)
    with a(2) lim have "unat a < unat sz div 32768"
      by (simp add: word_less_nat_alt)
    then have room: "unat a * 32768 + 32768 \<le> unat sz" by arith
    then have "32768 \<le> unat (sz - push_bit 15 a)" using sub by simp
    then have "(32768 :: 64 word) \<le> sz - push_bit 15 a"
      by (simp add: word_le_nat_alt)
    then have sub2: "unat (sz - push_bit 15 a - 32768) = unat sz - unat a * 32768 - 32768"
      using sub by (simp add: unat_sub)
    from Some scan step have "sz' = (if a \<noteq> 0 then sz - push_bit 15 a else sz) - 32768"
      by (auto simp add: read_body_step_def Let_def split: prod.splits if_splits)
    then have "sz' = sz - push_bit 15 a - 32768"
      by (cases "a = 0") simp_all
    with sub2 room show ?thesis by simp
  qed
qed


text \<open>
  The loop \<^verbatim>\<open>while (size >= (GRUB_DISK_CACHE_SIZE << GRUB_DISK_SECTOR_BITS))\<close> of
  \<^verbatim>\<open>grub_disk_read\<close>.
\<close>

function read_body ::
  "'h grub_disk_dev \<Rightarrow> grub_disk \<Rightarrow> grub_disk_addr_t \<Rightarrow> grub_size_t \<Rightarrow> 'h grub_state
     \<Rightarrow> grub_err_t \<times> byte list \<times> grub_disk_addr_t \<times> grub_size_t \<times> 'h grub_state" where
  "read_body dev disk sec sz st =
     (if push_bit GRUB_DISK_SECTOR_BITS GRUB_DISK_CACHE_SIZE \<le> sz
      then
        (case read_body_step dev disk sec sz st of
           (err, out, sec1, sz1, st1) \<Rightarrow>
             if err \<noteq> GRUB_ERR_NONE then (err, out, sec1, sz1, st1)
             else
               (case read_body dev disk sec1 sz1 st1 of
                  (err2, out2, rest) \<Rightarrow> (err2, out @ out2, rest)))
      else (GRUB_ERR_NONE, [], sec, sz, st))"
  by pat_completeness auto

termination
proof (relation "measure (\<lambda>(dev, disk, sec, sz, st). unat sz)", goal_cases)
  case 1
  show ?case by simp
next
  case (2 dev disk sec sz st err r1 out r2 sec1 r3 sz1 st1)
  then have "read_body_step dev disk sec sz st = (GRUB_ERR_NONE, out, sec1, sz1, st1)"
    by simp
  from read_body_step_decreases [OF "2"(1) this] show ?case
    by simp
qed

declare read_body.simps [simp del]

text \<open>
  The loop that calls the read hook: the list of the calls
  \<^verbatim>\<open>(disk->read_hook) (s, o, cl, ...)\<close> it makes, in order.
\<close>

function hook_calls ::
  "grub_disk_addr_t \<Rightarrow> grub_off_t \<Rightarrow> grub_size_t
     \<Rightarrow> (grub_disk_addr_t \<times> grub_off_t \<times> grub_size_t) list" where
  "hook_calls s off l =
     (if l = 0 then []
      else
        (let cl0 = GRUB_DISK_SECTOR_SIZE - off;
             cl = (if cl0 > l then l else cl0)
         in (s, off, cl) # hook_calls (s + 1) 0 (l - cl)))"
  by pat_completeness auto

termination
proof (relation "measures [\<lambda>(s, off, l). unat l, \<lambda>(s, off, l). if off = 0 then 0 else 1]", goal_cases)
  case 1
  show ?case by simp
next
  case (2 s off l cl0 cl)
  show ?case
  proof (cases "cl = 0")
    case True
    with 2 have "off \<noteq> 0" by (auto split: if_splits)
    with True show ?thesis by simp
  next
    case False
    from 2 have "cl \<le> l" by (auto split: if_splits)
    then have "unat (l - cl) = unat l - unat cl" by (simp add: unat_sub)
    moreover from False have "0 < unat cl" by (simp add: unat_gt_0)
    moreover from \<open>cl \<le> l\<close> have "unat cl \<le> unat l" by (simp add: word_le_nat_alt)
    ultimately show ?thesis by simp
  qed
qed

declare hook_calls.simps [simp del]

text \<open>\<^verbatim>\<open>grub_disk_read\<close>: the error code, the bytes delivered and the state.\<close>

definition grub_disk_read ::
  "'h grub_disk_dev \<Rightarrow> grub_disk \<Rightarrow> grub_disk_addr_t \<Rightarrow> grub_off_t \<Rightarrow> grub_size_t \<Rightarrow> 'h grub_state
     \<Rightarrow> grub_err_t \<times> byte list \<times> 'h grub_state" where
  "grub_disk_read dev disk sec off sz st =
     (let (err, real_sector, real_offset, st1) = grub_disk_adjust_range disk sec off sz st
      in if err \<noteq> GRUB_ERR_NONE then (grub_errno st1, [], st1)
         else
           (let (err1, out1, sec1, off1, sz1, st2) = read_head dev disk real_sector real_offset sz st1
            in if err1 \<noteq> GRUB_ERR_NONE then (err1, out1, st2)
               else
                 (let (err2, out2, sec2, sz2, st3) = read_body dev disk sec1 sz1 st2
                  in if err2 \<noteq> GRUB_ERR_NONE then (err2, out1 @ out2, st3)
                     else
                       (let (err3, out3, st4) =
                              (if sz2 \<noteq> 0 then grub_disk_read_small dev disk sec2 0 sz2 st3
                               else (GRUB_ERR_NONE, [], st3))
                        in if err3 \<noteq> GRUB_ERR_NONE then (err3, out1 @ out2 @ out3, st4)
                           else
                             (let st5 =
                                    (if read_hook disk
                                     then st4\<lparr>events := events st4
                                            @ map (\<lambda>(s, off, cl). Ev_read_hook s off cl)
                                                (hook_calls real_sector real_offset sz)\<rparr>
                                     else st4)
                              in (grub_errno st5, out1 @ out2 @ out3, st5))))))"


section \<open>The write engine\<close>

text \<open>
  The loop \<^verbatim>\<open>while (n--)\<close> of the aligned branch of \<^verbatim>\<open>grub_disk_write\<close>: one
  \<^verbatim>\<open>grub_disk_cache_invalidate\<close> per native sector written. The results are
  the value of \<^verbatim>\<open>sector\<close> afterwards and the state.
\<close>

fun invalidate_sectors ::
  "'h grub_disk_dev \<Rightarrow> grub_disk \<Rightarrow> nat \<Rightarrow> grub_disk_addr_t \<Rightarrow> 'h grub_state
     \<Rightarrow> grub_disk_addr_t \<times> 'h grub_state" where
  "invalidate_sectors dev disk 0 sec st = (sec, st)"
| "invalidate_sectors dev disk (Suc n) sec st =
     invalidate_sectors dev disk n
       (sec + push_bit (log_sector_size disk - GRUB_DISK_SECTOR_BITS) 1)
       (st\<lparr>grub_disk_cache_table :=
              grub_disk_cache_invalidate (dev_ident dev) (ident disk) sec (grub_disk_cache_table st),
            events := events st @ [Ev_cache_invalidate sec]\<rparr>)"

text \<open>
  The branch of the loop of \<^verbatim>\<open>grub_disk_write\<close> that reads one native sector,
  patches it and writes it back. The partition chain is detached for the read.
  The result is \<open>Inl\<close> of the state when the branch leaves the loop
  (\<^verbatim>\<open>goto finish\<close>), and \<open>Inr\<close> of the number of bytes consumed and the state
  when the loop goes on.
\<close>

definition write_rmw ::
  "'h grub_disk_dev \<Rightarrow> grub_disk \<Rightarrow> grub_disk_addr_t \<Rightarrow> uint \<Rightarrow> grub_size_t \<Rightarrow> byte list
     \<Rightarrow> 'h grub_state \<Rightarrow> 'h grub_state + grub_size_t \<times> 'h grub_state" where
  "write_rmw dev disk sec real_offset sz buf st =
     (let (err, tmp_buf, st1) =
            grub_disk_read dev (disk\<lparr>partition := []\<rparr>) sec 0
              (push_bit (log_sector_size disk) 1) st
      in if err \<noteq> GRUB_ERR_NONE then Inl st1
         else
           (let ln0 = (ucast (push_bit (log_sector_size disk) 1 - real_offset) :: grub_size_t);
                ln = (if ln0 > sz then sz else ln0);
                patched = take (unat real_offset) tmp_buf @ take (unat ln) buf
                            @ drop (unat real_offset + unat ln) tmp_buf;
                st2 = st1\<lparr>grub_disk_cache_table :=
                             grub_disk_cache_invalidate (dev_ident dev) (ident disk) sec
                               (grub_disk_cache_table st1),
                           events := events st1 @ [Ev_cache_invalidate sec]\<rparr>;
                (werr, st3) = call_dev_write dev disk (transform_sector disk sec) 1 patched st2
            in if werr \<noteq> GRUB_ERR_NONE then Inl st3 else Inr (ln, st3)))"

text \<open>
  The other branch: all whole native sectors of the request are written by a
  single driver call, then their cache clusters are invalidated. The result is
  \<open>Inl\<close> of the state when the driver fails, and \<open>Inr\<close> of the number of bytes
  written, the value of \<^verbatim>\<open>sector\<close> afterwards and the state otherwise.
\<close>

definition write_bulk ::
  "'h grub_disk_dev \<Rightarrow> grub_disk \<Rightarrow> grub_disk_addr_t \<Rightarrow> grub_size_t \<Rightarrow> byte list
     \<Rightarrow> 'h grub_state \<Rightarrow> 'h grub_state + grub_size_t \<times> grub_disk_addr_t \<times> 'h grub_state" where
  "write_bulk dev disk sec sz buf st =
     (let ln = sz AND NOT (push_bit (log_sector_size disk) 1 - 1);
          n = drop_bit (log_sector_size disk) sz;
          (werr, st1) = call_dev_write dev disk (transform_sector disk sec) n (take (unat ln) buf) st
      in if werr \<noteq> GRUB_ERR_NONE then Inl st1
         else Inr (ln, invalidate_sectors dev disk (unat n) sec st1))"

text \<open>
  The loop \<^verbatim>\<open>while (size)\<close> of \<^verbatim>\<open>grub_disk_write\<close>, up to the
  \<^verbatim>\<open>return grub_errno\<close> at the label \<^verbatim>\<open>finish\<close>. The loop need not end for a sector
  size that \<^verbatim>\<open>grub_disk_open\<close> rejects, so the result is optional.
\<close>

partial_function (option) write_loop ::
  "'h grub_disk_dev \<Rightarrow> grub_disk \<Rightarrow> grub_disk_addr_t \<Rightarrow> uint \<Rightarrow> grub_size_t \<Rightarrow> byte list
     \<Rightarrow> 'h grub_state \<Rightarrow> (grub_err_t \<times> 'h grub_state) option" where
  "write_loop dev disk sec real_offset sz buf st =
     (if sz = 0 then Some (grub_errno st, st)
      else if real_offset \<noteq> 0
              \<or> (sz < ucast (push_bit (log_sector_size disk) 1 :: uint) \<and> sz \<noteq> 0)
      then
        (case write_rmw dev disk sec real_offset sz buf st of
           Inl st1 \<Rightarrow> Some (grub_errno st1, st1)
         | Inr (ln, st1) \<Rightarrow>
             write_loop dev disk
               (sec + push_bit (log_sector_size disk - GRUB_DISK_SECTOR_BITS) 1)
               0 (sz - ln) (drop (unat ln) buf) st1)
      else
        (case write_bulk dev disk sec sz buf st of
           Inl st1 \<Rightarrow> Some (grub_errno st1, st1)
         | Inr (ln, sec1, st1) \<Rightarrow>
             write_loop dev disk sec1 real_offset (sz - ln) (drop (unat ln) buf) st1))"

declare write_loop.simps [code]

text \<open>\<^verbatim>\<open>grub_disk_write\<close>.\<close>

definition grub_disk_write ::
  "'h grub_disk_dev \<Rightarrow> grub_disk \<Rightarrow> grub_disk_addr_t \<Rightarrow> grub_off_t \<Rightarrow> grub_size_t \<Rightarrow> byte list
     \<Rightarrow> 'h grub_state \<Rightarrow> (grub_err_t \<times> 'h grub_state) option" where
  "grub_disk_write dev disk sec off sz buf st =
     (let (err, sec1, off1, st1) = grub_disk_adjust_range disk sec off sz st
      in if err \<noteq> GRUB_ERR_NONE then Some (GRUB_ERR_CODE (- 1), st1)
         else
           (let aligned_sector =
                  sec1 AND NOT (push_bit (log_sector_size disk - GRUB_DISK_SECTOR_BITS) 1 - 1);
                real_offset =
                  (ucast (off1 + push_bit GRUB_DISK_SECTOR_BITS (sec1 - aligned_sector)) :: uint)
            in write_loop dev disk aligned_sector real_offset sz buf st1))"


section \<open>Opening and closing a disk\<close>

text \<open>
  \<^verbatim>\<open>find_part_sep\<close>: the position of the first \<^verbatim>\<open>','\<close> that is not skipped as the
  second character of a pair \<^verbatim>\<open>"\\,"\<close>, if any. A name is the list of the characters
  before the terminating NUL.
\<close>

fun find_part_sep :: "string \<Rightarrow> nat option" where
  "find_part_sep [] = None"
| "find_part_sep [c] = (if c = CHR '','' then Some 0 else None)"
| "find_part_sep (c # d # p) =
     (if c = CHR 0x5C \<and> d = CHR '',''
      then map_option (\<lambda>i. i + 2) (find_part_sep p)
      else if c = CHR '','' then Some 0
      else map_option Suc (find_part_sep (d # p)))"

text \<open>
  The walk over \<^verbatim>\<open>grub_disk_dev_list\<close> in \<^verbatim>\<open>grub_disk_open\<close>. \<open>k\<close> counts the
  drivers passed. The result tells how the loop is left: with the driver that
  has opened the disk, at the end of the list, or by \<^verbatim>\<open>goto fail\<close>.
\<close>

datatype walk = Walk_found nat | Walk_end | Walk_fail

fun open_walk ::
  "'h grub_disk_dev list \<Rightarrow> nat \<Rightarrow> string \<Rightarrow> grub_disk \<Rightarrow> 'h grub_state
     \<Rightarrow> walk \<times> grub_disk \<times> 'h grub_state" where
  "open_walk [] k raw disk st = (Walk_end, disk, st)"
| "open_walk (dev # next) k raw disk st =
     (let (err, disk1, h) = dev_open dev raw disk (hw st);
          st1 = st\<lparr>hw := h,
                    grub_errno := (if err = GRUB_ERR_NONE then grub_errno st else err),
                    events := events st @ [Ev_dev_open k raw]\<rparr>
      in if err = GRUB_ERR_NONE then (Walk_found k, disk1, st1)
         else if grub_errno st1 = GRUB_ERR_UNKNOWN_DEVICE
         then open_walk next (Suc k) raw disk1 (st1\<lparr>grub_errno := GRUB_ERR_NONE\<rparr>)
         else (Walk_fail, disk1, st1))"

text \<open>
  \<^verbatim>\<open>grub_disk_close\<close>; \<open>opened\<close> tells whether \<^verbatim>\<open>disk->dev\<close> is set, \<open>now\<close> is
  the value of \<^verbatim>\<open>grub_get_time_ms ()\<close>.
\<close>

definition grub_disk_close :: "bool \<Rightarrow> grub_uint64_t \<Rightarrow> 'h grub_state \<Rightarrow> 'h grub_state" where
  "grub_disk_close opened now st =
     st\<lparr>events := (if opened then events st @ [Ev_dev_close] else events st),
        grub_last_time := now\<rparr>"

text \<open>
  The code of \<^verbatim>\<open>grub_disk_open\<close> from the label \<^verbatim>\<open>fail\<close> on: with a pending error
  the disk is closed and the result is null, otherwise the result is the disk
  with the number of its driver (\<^verbatim>\<open>disk->dev\<close>, if set).
\<close>

definition open_finish ::
  "grub_disk \<Rightarrow> nat option \<Rightarrow> grub_uint64_t \<Rightarrow> 'h grub_state
     \<Rightarrow> (grub_disk \<times> nat option) option \<times> 'h grub_state" where
  "open_finish disk dev now st =
     (if grub_errno st \<noteq> GRUB_ERR_NONE
      then (None, grub_disk_close (dev \<noteq> None) now st)
      else (Some (disk, dev), st))"

text \<open>
  \<^verbatim>\<open>grub_disk_open\<close>. \<open>devs\<close> is \<^verbatim>\<open>grub_disk_dev_list\<close>, \<open>probe\<close> is
  \<^verbatim>\<open>grub_partition_probe\<close> (the empty chain is its null result) and \<open>now\<close> is the
  value of \<^verbatim>\<open>grub_get_time_ms ()\<close>. The three allocations are those of the disk,
  of \<^verbatim>\<open>raw\<close> and of the copy of the name. Numeric arguments of an error message
  are not recorded.
\<close>

definition grub_disk_open ::
  "'h grub_disk_dev list \<Rightarrow> (grub_disk \<Rightarrow> string \<Rightarrow> grub_partition list) \<Rightarrow> grub_uint64_t
     \<Rightarrow> string \<Rightarrow> 'h grub_state \<Rightarrow> (grub_disk \<times> nat option) option \<times> 'h grub_state" where
  "grub_disk_open devs probe now nm st =
     (let (ok0, st0) = grub_malloc st
      in if \<not> ok0 then (None, st0)
         else
           (let disk0 = \<lparr>name = [], ident = 0, total_sectors = 0,
                         log_sector_size = GRUB_DISK_SECTOR_BITS, partition = [],
                         read_hook = False\<rparr>;
                p = find_part_sep nm;
                (ok1, st1) = (case p of None \<Rightarrow> (True, st0) | Some i \<Rightarrow> grub_malloc st0)
            in if \<not> ok1 then open_finish disk0 None now st1
               else
                 (let raw = (case p of None \<Rightarrow> nm | Some i \<Rightarrow> take i nm);
                      (ok2, st2) = grub_malloc st1
                  in if \<not> ok2 then open_finish disk0 None now st2
                     else
                       (case open_walk devs 0 raw (disk0\<lparr>name := raw\<rparr>) st2 of
                          (Walk_fail, disk1, st3) \<Rightarrow> open_finish disk1 None now st3
                        | (Walk_end, disk1, st3) \<Rightarrow>
                            open_finish disk1 None now
                              (grub_error GRUB_ERR_UNKNOWN_DEVICE
                                 (''disk `%s'' @ [CHR 0x27] @ '' not found'') [nm] st3)
                        | (Walk_found k, disk1, st3) \<Rightarrow>
                            if log_sector_size disk1 > GRUB_DISK_CACHE_BITS + GRUB_DISK_SECTOR_BITS
                               \<or> log_sector_size disk1 < GRUB_DISK_SECTOR_BITS
                            then open_finish disk1 None now
                                   (grub_error GRUB_ERR_NOT_IMPLEMENTED_YET
                                      (''sector sizes of %d bytes aren'' @ [CHR 0x27]
                                         @ ''t supported yet'') [] st3)
                            else
                              (let disk2 = (case p of
                                              None \<Rightarrow> disk1
                                            | Some i \<Rightarrow>
                                                disk1\<lparr>partition := probe disk1 (drop (i + 1) nm)\<rparr>);
                                   st4 = (case p of
                                            None \<Rightarrow> st3
                                          | Some i \<Rightarrow>
                                              st3\<lparr>events := events st3
                                                     @ [Ev_partition_probe (drop (i + 1) nm)]\<rparr>)
                               in if p \<noteq> None \<and> partition disk2 = []
                                  then open_finish disk2 (Some k) now
                                         (grub_error GRUB_ERR_UNKNOWN_DEVICE ''no such partition'' [] st4)
                                  else
                                    open_finish disk2 (Some k) now
                                      (st4\<lparr>grub_disk_cache_table :=
                                              (if now > grub_last_time st4 + 2 * 1000
                                               then grub_disk_cache_invalidate_all
                                                      (grub_disk_cache_table st4)
                                               else grub_disk_cache_table st4),
                                            grub_last_time := now\<rparr>))))))"


section \<open>Notions used in the statements\<close>

text \<open>A table whose slot for cluster 0 of disk 2 of driver 1 is occupied and locked.\<close>

definition locked_table :: cache_table where
  "locked_table = initial_table(slot_of 1 2 0 :=
      \<lparr>dev_id = 1, disk_id = 2, sector = 0, data = Some [7], lock = True\<rparr>)"

text \<open>
  The number of sectors a request needs in exact arithmetic,
  \<open>\<lceil>(offset + size) / 512\<rceil>\<close>, and the value of \<^verbatim>\<open>*sector\<close> when the walk reaches
  the \<open>k\<close>-th partition of the chain.
\<close>

definition need_exact :: "grub_off_t \<Rightarrow> grub_size_t \<Rightarrow> nat" where
  "need_exact off sz = (unat off + unat sz + 511) div 512"

definition sector_at :: "grub_partition list \<Rightarrow> grub_disk_addr_t \<Rightarrow> nat \<Rightarrow> grub_disk_addr_t" where
  "sector_at ps sec k = fold (\<lambda>p s. s + start p) (take k ps) sec"

text \<open>The containment test of the source against a length \<open>l\<close>, in exact arithmetic.\<close>

definition outside :: "grub_uint64_t \<Rightarrow> grub_disk_addr_t \<Rightarrow> nat \<Rightarrow> bool" where
  "outside l sec need \<longleftrightarrow> unat l \<le> unat sec \<or> unat l - unat sec < need"

text \<open>A disk of unknown size with one partition of a single sector.\<close>

definition c2_disk :: grub_disk where
  "c2_disk = \<lparr>name = ''hd0'', ident = 0, total_sectors = GRUB_DISK_SIZE_UNKNOWN,
               log_sector_size = 9, partition = [\<lparr>start = 0, len = 1\<rparr>], read_hook = False\<rparr>"

text \<open>
  Position \<open>i\<close> of a name holds a comma that is not preceded by a backslash.
\<close>

definition unescaped_comma :: "string \<Rightarrow> nat \<Rightarrow> bool" where
  "unescaped_comma nm i \<longleftrightarrow>
     i < length nm \<and> nm ! i = CHR '','' \<and> (i = 0 \<or> nm ! (i - 1) \<noteq> CHR 0x5C)"

text \<open>
  The name that \<^verbatim>\<open>grub_disk_open\<close> hands to the drivers and the specification it
  hands to the partition prober, and the calls that agree with them.
\<close>

definition raw_name :: "string \<Rightarrow> string" where
  "raw_name nm = (case find_part_sep nm of None \<Rightarrow> nm | Some i \<Rightarrow> take i nm)"

definition open_call_ok :: "string \<Rightarrow> event \<Rightarrow> bool" where
  "open_call_ok nm e =
     (case e of
        Ev_dev_open k raw \<Rightarrow> raw = raw_name nm
      | Ev_partition_probe spec \<Rightarrow>
          (case find_part_sep nm of None \<Rightarrow> False | Some i \<Rightarrow> spec = drop (i + 1) nm)
      | Ev_dev_close \<Rightarrow> True
      | _ \<Rightarrow> False)"

text \<open>A driver that opens every name, one that knows no name, and one that fails.\<close>

definition any_dev :: "unit grub_disk_dev" where
  "any_dev = \<lparr>dev_ident = 1,
              dev_open = (\<lambda>raw disk h. (GRUB_ERR_NONE, disk\<lparr>total_sectors := 128\<rparr>, h)),
              dev_read = (\<lambda>h disk sec n.
                 (GRUB_ERR_NONE, replicate (unat n * 2 ^ log_sector_size disk) 0, h)),
              dev_write = (\<lambda>h disk sec n buf. (GRUB_ERR_NONE, h))\<rparr>"

definition no_dev :: "unit grub_disk_dev" where
  "no_dev = any_dev\<lparr>dev_open := (\<lambda>raw disk h. (GRUB_ERR_UNKNOWN_DEVICE, disk, h))\<rparr>"

definition bad_dev :: "unit grub_disk_dev" where
  "bad_dev = any_dev\<lparr>dev_open := (\<lambda>raw disk h. (GRUB_ERR_IO, disk, h))\<rparr>"

text \<open>A prober that finds one partition, and the state after start-up.\<close>

definition one_partition :: "grub_disk \<Rightarrow> string \<Rightarrow> grub_partition list" where
  "one_partition disk spec = [\<lparr>start = 63, len = 64\<rparr>]"

definition boot_state :: "unit grub_state" where
  "boot_state = \<lparr>grub_disk_cache_table = initial_table, grub_errno = GRUB_ERR_NONE,
                  grub_errmsg = ([], []), grub_last_time = 0, mm = [], hw = (),
                  events = []\<rparr>"

text \<open>The name \<^verbatim>\<open>my\,disk,1\<close> (the C literal \<^verbatim>\<open>"my\\,disk,1"\<close>).\<close>

definition escaped_name :: string where
  "escaped_name = ''my'' @ [CHR 0x5C] @ '',disk,1''"

text \<open>
  The disk that \<^verbatim>\<open>grub_disk_open\<close> hands to the drivers: zeroed storage with the
  default sector size and the raw name.
\<close>

definition new_disk :: "string \<Rightarrow> grub_disk" where
  "new_disk raw = \<lparr>name = raw, ident = 0, total_sectors = 0,
                    log_sector_size = GRUB_DISK_SECTOR_BITS, partition = [], read_hook = False\<rparr>"

text \<open>
  The allocations that \<^verbatim>\<open>grub_disk_open\<close> makes before it walks over the
  drivers (of the disk, of \<^verbatim>\<open>raw\<close> when the name has a separator, and of the
  copy of the name): the state after them, if they all succeed.
\<close>

definition open_allocs :: "string \<Rightarrow> 'h grub_state \<Rightarrow> 'h grub_state option" where
  "open_allocs nm st =
     (let (ok0, st0) = grub_malloc st
      in if \<not> ok0 then None
         else
           (let (ok1, st1) = (case find_part_sep nm of
                                None \<Rightarrow> (True, st0)
                              | Some i \<Rightarrow> grub_malloc st0)
            in if \<not> ok1 then None
               else (let (ok2, st2) = grub_malloc st1 in if ok2 then Some st2 else None)))"

text \<open>
  The drivers of a list decline one after the other: each, called on the disk
  and the device state that the one before has left, returns
  \<^verbatim>\<open>GRUB_ERR_UNKNOWN_DEVICE\<close>. The result is the disk and the device state after
  the last of them.
\<close>

fun declined ::
  "'h grub_disk_dev list \<Rightarrow> string \<Rightarrow> grub_disk \<Rightarrow> 'h \<Rightarrow> (grub_disk \<times> 'h) option" where
  "declined [] raw disk h = Some (disk, h)"
| "declined (d # ds) raw disk h =
     (case dev_open d raw disk h of
        (err, disk1, h1) \<Rightarrow>
          if err = GRUB_ERR_UNKNOWN_DEVICE then declined ds raw disk1 h1 else None)"

text \<open>A driver that opens the name \<^verbatim>\<open>hd0\<close> and declines every other name.\<close>

definition hd_dev :: "unit grub_disk_dev" where
  "hd_dev = any_dev\<lparr>dev_open := (\<lambda>raw disk h.
      if raw = ''hd0'' then (GRUB_ERR_NONE, disk\<lparr>total_sectors := 128\<rparr>, h)
      else (GRUB_ERR_UNKNOWN_DEVICE, disk, h))\<rparr>"

text \<open>The calls of the first \<open>n\<close> drivers of the list, each with the name \<open>raw\<close>.\<close>

definition dev_open_calls :: "string \<Rightarrow> nat \<Rightarrow> event list" where
  "dev_open_calls raw n = map (\<lambda>j. Ev_dev_open j raw) [0..<n]"

text \<open>The coming allocation succeeds.\<close>

definition next_alloc_ok :: "'h grub_state \<Rightarrow> bool" where
  "next_alloc_ok st = (case mm st of [] \<Rightarrow> True | ok # rest \<Rightarrow> ok)"

text \<open>A disk of exactly one cache cluster: 64 sectors of 512 bytes.\<close>

definition one_cluster_disk :: grub_disk where
  "one_cluster_disk = \<lparr>name = ''hd0'', ident = 0, total_sectors = 64, log_sector_size = 9,
                         partition = [], read_hook = False\<rparr>"

text \<open>A disk of two cache clusters.\<close>

definition two_cluster_disk :: grub_disk where
  "two_cluster_disk = one_cluster_disk\<lparr>total_sectors := 128\<rparr>"

text \<open>
  A driver whose medium holds, at every byte address, the low eight bits of
  the address; \<open>pattern_bytes a n\<close> are the \<open>n\<close> bytes from address \<open>a\<close> on.
\<close>

definition pattern_bytes :: "nat \<Rightarrow> nat \<Rightarrow> byte list" where
  "pattern_bytes a n = map (\<lambda>i. of_nat (a + i)) [0..<n]"

definition pattern_dev :: "unit grub_disk_dev" where
  "pattern_dev = any_dev\<lparr>dev_read := (\<lambda>h disk sec n.
      (GRUB_ERR_NONE,
       pattern_bytes (unat sec * 2 ^ log_sector_size disk) (unat n * 2 ^ log_sector_size disk),
       h))\<rparr>"

text \<open>The state in which the next allocation succeeds and the one after it fails.\<close>

definition second_alloc_fails :: "unit grub_state" where
  "second_alloc_fails = boot_state\<lparr>mm := [True, False]\<rparr>"

text \<open>The state in which the next allocation fails.\<close>

definition first_alloc_fails :: "unit grub_state" where
  "first_alloc_fails = boot_state\<lparr>mm := [False]\<rparr>"

text \<open>The calls of the read hook among the calls made, in order.\<close>

fun hook_events :: "event list \<Rightarrow> (grub_disk_addr_t \<times> grub_off_t \<times> grub_size_t) list" where
  "hook_events [] = []"
| "hook_events (Ev_read_hook s off cl # es) = (s, off, cl) # hook_events es"
| "hook_events (e # es) = hook_events es"

text \<open>
  What C5 says of the calls of the hook, read from the first call on: a call is
  made as long as bytes remain; it is for the sector \<open>s\<close>, with the offset \<open>off\<close>
  and the length \<open>min (512 - off) remaining\<close>; the calls after it are for the next
  sector, with offset 0 and the bytes that remain.
\<close>

fun hook_trace_ok ::
  "(grub_disk_addr_t \<times> grub_off_t \<times> grub_size_t) list \<Rightarrow> grub_disk_addr_t \<Rightarrow> nat \<Rightarrow> nat \<Rightarrow> bool" where
  "hook_trace_ok [] s off remaining = (remaining = 0)"
| "hook_trace_ok ((s', off', cl) # rest) s off remaining =
     (remaining \<noteq> 0 \<and> s' = s \<and> unat off' = off \<and> unat cl = min (512 - off) remaining
      \<and> hook_trace_ok rest (s + 1) 0 (remaining - unat cl))"

text \<open>The disk of two cache clusters with a read hook set.\<close>

definition hooked_disk :: grub_disk where
  "hooked_disk = two_cluster_disk\<lparr>read_hook := True\<rparr>"

text \<open>A disk of 8 sectors of 4096 bytes: exactly one cache cluster.\<close>

definition big_sector_disk :: grub_disk where
  "big_sector_disk = \<lparr>name = ''hd0'', ident = 0, total_sectors = 8, log_sector_size = 12,
                       partition = [], read_hook = False\<rparr>"

section \<open>The slot index\<close>

lemma get_index_unat:
  "unat (grub_disk_cache_get_index dev disk sec) =
     ((unat dev * 524287 + unat disk * 2606459 + (unat sec div 64) mod 2 ^ 32) mod 2 ^ 64)
       mod 1021"
proof -
  let ?c = "ucast (ucast (drop_bit 6 sec :: 64 word) :: uint) :: ulong"
  have c: "unat ?c = (unat sec div 64) mod 2 ^ 32"
    by (simp add: unsigned_ucast_eq take_bit_eq_mod unat_mod unat_div drop_bit_eq_div)
  let ?s = "dev * 524287 + disk * 2606459 + ?c"
  have s: "unat ?s = (unat dev * 524287 + unat disk * 2606459 + unat ?c) mod 2 ^ 64"
    by (simp add: unat_word_ariths mod_simps)
  have m: "unat (?s mod 1021) = unat ?s mod 1021"
    by (simp add: unat_mod)
  have "unat (?s mod 1021) < 2 ^ 32"
    unfolding m by (rule less_trans [OF mod_less_divisor]) simp_all
  then have "unat (ucast (?s mod 1021) :: uint) = unat (?s mod 1021)"
    by (simp add: unsigned_ucast_eq take_bit_eq_mod unat_mod)
  then show ?thesis
    unfolding grub_disk_cache_get_index_def m s c by simp
qed

lemma slot_of_less: "slot_of dev disk sec < GRUB_DISK_CACHE_NUM"
  unfolding slot_of_def get_index_unat by simp

text \<open>
  C8, as stated: the slot index is
  \<open>(class_id * 524287 + disk_id * 2606459 + (sector >> CACHE_BITS)) mod CACHE_SLOTS\<close>
  in exact arithmetic. This fails for the sector \<open>2 ^ 38\<close>: the cluster number
  \<open>2 ^ 32\<close> is cut to 32 bits by the cast, so the slot is 0, where the exact
  formula gives 108.
\<close>

theorem C8_exact_index_counterexample:
  "unat (grub_disk_cache_get_index 0 0 (2 ^ 38))
     \<noteq> (unat (0 :: ulong) * 524287 + unat (0 :: ulong) * 2606459
          + unat (2 ^ 38 :: grub_disk_addr_t) div 2 ^ GRUB_DISK_CACHE_BITS)
        mod GRUB_DISK_CACHE_NUM"
  by (simp add: get_index_unat)

text \<open>
  C8, amended: the slot index is the sum of \<open>class_id * 524287\<close>,
  \<open>disk_id * 2606459\<close> and the low 32 bits of the cluster number
  \<open>sector >> CACHE_BITS\<close>, reduced modulo \<open>2 ^ 64\<close> (the width of
  \<^verbatim>\<open>unsigned long\<close>) and then modulo the number of slots; it is always a valid
  slot number.
\<close>

theorem C8_index_truncated:
  "unat (grub_disk_cache_get_index dev disk sec) =
     ((unat dev * 524287 + unat disk * 2606459
        + (unat sec div 2 ^ GRUB_DISK_CACHE_BITS) mod 2 ^ 32) mod 2 ^ 64)
       mod GRUB_DISK_CACHE_NUM
   \<and> unat (grub_disk_cache_get_index dev disk sec) < GRUB_DISK_CACHE_NUM"
  by (simp add: get_index_unat)

section \<open>Invalidation of one cluster\<close>

lemma and_not_mask_push_drop:
  "(s :: 'a::len word) AND NOT (mask n) = push_bit n (drop_bit n s)"
  by (rule bit_word_eqI) (auto simp add: bit_simps)

lemma unat_push_drop:
  "unat (push_bit n (drop_bit n (s :: 'a::len word))) = 2 ^ n * (unat s div 2 ^ n)"
proof -
  have "unat s div 2 ^ n * 2 ^ n \<le> unat s" by simp
  also have "unat s < 2 ^ LENGTH('a)" by (rule unsigned_less)
  finally have lt: "(unat s div 2 ^ n) * 2 ^ n < 2 ^ LENGTH('a)" .
  have "unat (push_bit n (drop_bit n s)) = (unat s div 2 ^ n * 2 ^ n) mod 2 ^ LENGTH('a)"
    by (subst unsigned_push_bit_eq, subst unat_drop_bit_eq)
       (simp only: take_bit_eq_mod push_bit_eq_mult drop_bit_eq_div)
  with lt show ?thesis by (simp add: mult.commute)
qed

lemma unat_and_not_mask:
  "unat ((s :: 'a::len word) AND NOT (mask n)) = 2 ^ n * (unat s div 2 ^ n)"
  unfolding and_not_mask_push_drop unat_push_drop ..

lemma cluster_start_unat:
  "unat ((s :: grub_disk_addr_t) AND NOT (GRUB_DISK_CACHE_SIZE - 1)) = unat s - unat s mod 64"
  using unat_and_not_mask [of s 6] by (simp add: mask_eq_exp_minus_1 minus_mod_eq_mult_div)

text \<open>
  C6, as stated: a matching slot whose lock bit is set is left untouched. In
  \<open>locked_table\<close> the slot of sector 5 (cluster 0) matches, is occupied and is
  locked; \<^verbatim>\<open>grub_disk_cache_invalidate\<close> frees its buffer and clears the lock.
\<close>

theorem C6_locked_slot_counterexample:
  "key_match (locked_table (slot_of 1 2 (5 AND NOT (GRUB_DISK_CACHE_SIZE - 1)))) 1 2
      (5 AND NOT (GRUB_DISK_CACHE_SIZE - 1))
   \<and> data (locked_table (slot_of 1 2 (5 AND NOT (GRUB_DISK_CACHE_SIZE - 1)))) = Some [7]
   \<and> lock (locked_table (slot_of 1 2 (5 AND NOT (GRUB_DISK_CACHE_SIZE - 1))))
   \<and> grub_disk_cache_invalidate 1 2 5 locked_table \<noteq> locked_table
   \<and> data (grub_disk_cache_invalidate 1 2 5 locked_table
              (slot_of 1 2 (5 AND NOT (GRUB_DISK_CACHE_SIZE - 1)))) = None"
proof -
  have a: "(5 :: grub_disk_addr_t) AND NOT (GRUB_DISK_CACHE_SIZE - 1) = 0"
    by simp
  have d: "data (grub_disk_cache_invalidate 1 2 5 locked_table (slot_of 1 2 0)) = None"
    by (simp add: grub_disk_cache_invalidate_def locked_table_def key_match_def Let_def)
  have e: "data (locked_table (slot_of 1 2 0)) = Some [7]"
    by (simp add: locked_table_def)
  from d e have "grub_disk_cache_invalidate 1 2 5 locked_table \<noteq> locked_table"
    by (metis option.distinct(1))
  with d e show ?thesis
    unfolding a by (simp add: locked_table_def key_match_def)
qed

text \<open>
  C6, amended: \<^verbatim>\<open>grub_disk_cache_invalidate\<close> frees the buffer of the slot at the
  hashed index if and only if the slot matches \<open>class_id\<close>, \<open>disk_id\<close> and the
  sector rounded down to cluster alignment and is occupied, whatever its lock
  bit; the freed slot is left unlocked with its key fields, and otherwise the
  table is unchanged.
\<close>

theorem C6_invalidate_frees_matching:
  "(let s = sec AND NOT (GRUB_DISK_CACHE_SIZE - 1);
        i = slot_of dev disk s;
        tbl' = grub_disk_cache_invalidate dev disk sec tbl
    in unat s = unat sec - unat sec mod 2 ^ GRUB_DISK_CACHE_BITS
       \<and> ((data (tbl i) \<noteq> None \<and> data (tbl' i) = None)
            = (key_match (tbl i) dev disk s \<and> data (tbl i) \<noteq> None))
       \<and> tbl' = (if key_match (tbl i) dev disk s \<and> data (tbl i) \<noteq> None
                 then tbl(i := (tbl i)\<lparr>data := None, lock := False\<rparr>)
                 else tbl))"
  using cluster_start_unat [of sec]
  by (auto simp add: grub_disk_cache_invalidate_def Let_def)

lemma invalidate_locked_table:
  "grub_disk_cache_invalidate 1 2 5 locked_table
     = locked_table(slot_of 1 2 0 :=
         \<lparr>dev_id = 1, disk_id = 2, sector = 0, data = None, lock = False\<rparr>)"
  by (simp add: grub_disk_cache_invalidate_def locked_table_def key_match_def Let_def)

theorem C6_invalidate_frees_matching_witness:
  "grub_disk_cache_invalidate 1 2 5 locked_table
     = locked_table(slot_of 1 2 0 :=
         \<lparr>dev_id = 1, disk_id = 2, sector = 0, data = None, lock = False\<rparr>)"
proof -
  have a: "(5 :: grub_disk_addr_t) AND NOT (GRUB_DISK_CACHE_SIZE - 1) = 0"
    by simp
  show ?thesis
    using C6_invalidate_frees_matching [of 5 1 2 locked_table]
    unfolding a Let_def by (simp add: locked_table_def key_match_def)
qed


section \<open>A fetch of an emptied slot\<close>

lemma malloc_table [simp]:
  "grub_disk_cache_table (snd (grub_malloc st)) = grub_disk_cache_table st"
  by (simp add: grub_malloc_def split: list.splits)

lemma store_unlocks:
  "\<not> lock (grub_disk_cache_table (snd (grub_disk_cache_store dev disk sec buf st))
            (slot_of dev disk sec))"
  by (simp add: grub_disk_cache_store_def grub_malloc_def Let_def split: list.splits prod.splits)

lemma invalidate_all_funpow_locked:
  "lock (tbl i) \<Longrightarrow> (grub_disk_cache_invalidate_all ^^ n) tbl i = tbl i"
proof (induction n arbitrary: tbl)
  case 0
  show ?case by simp
next
  case (Suc n)
  have "grub_disk_cache_invalidate_all tbl i = tbl i"
    using Suc.prems by (simp add: grub_disk_cache_invalidate_all_def)
  with Suc.prems have "lock (grub_disk_cache_invalidate_all tbl i)" by simp
  from Suc.IH [of "grub_disk_cache_invalidate_all tbl"] this
    \<open>grub_disk_cache_invalidate_all tbl i = tbl i\<close>
  show ?case by (simp add: funpow_swap1)
qed

lemma read_small_fallback_table [simp]:
  "grub_disk_cache_table (snd (snd (read_small_fallback dev disk sec off sz st)))
     = grub_disk_cache_table st"
  by (simp add: read_small_fallback_def call_dev_read_def grub_malloc_def Let_def
           split: list.splits prod.splits)

text \<open>
  C10: a fetch whose key matches a slot with a null buffer locks the slot and
  returns a miss; \<^verbatim>\<open>grub_disk_cache_invalidate_all\<close>, however often it runs,
  leaves the slot as it is (locked); a store to the same index unlocks it. The
  caller \<^verbatim>\<open>grub_disk_read_small\<close> unlocks only after a hit: when it does not
  read the cluster as a whole it returns with the slot still locked.
\<close>

theorem C10_fetch_of_empty_matching_slot_locks:
  assumes m: "key_match (tbl (slot_of dev disk sec)) dev disk sec"
    and e: "data (tbl (slot_of dev disk sec)) = None"
  shows "fst (grub_disk_cache_fetch dev disk sec tbl) = None
     \<and> snd (grub_disk_cache_fetch dev disk sec tbl)
         = tbl(slot_of dev disk sec := (tbl (slot_of dev disk sec))\<lparr>lock := True\<rparr>)
     \<and> lock (snd (grub_disk_cache_fetch dev disk sec tbl) (slot_of dev disk sec))
     \<and> (\<forall>n. (grub_disk_cache_invalidate_all ^^ n) (snd (grub_disk_cache_fetch dev disk sec tbl))
                (slot_of dev disk sec)
              = snd (grub_disk_cache_fetch dev disk sec tbl) (slot_of dev disk sec))
     \<and> (\<forall>dev' disk' sec' buf (st :: 'h grub_state).
           slot_of dev' disk' sec' = slot_of dev disk sec \<longrightarrow>
           \<not> lock (grub_disk_cache_table (snd (grub_disk_cache_store dev' disk' sec' buf st))
                     (slot_of dev disk sec)))
     \<and> (\<forall>(d :: 'h grub_disk_dev) dsk off sz (st :: 'h grub_state).
           dev_ident d = dev \<and> ident dsk = disk \<and> grub_disk_cache_table st = tbl
           \<and> total_sectors dsk \<noteq> GRUB_DISK_SIZE_UNKNOWN
           \<and> \<not> sec + GRUB_DISK_CACHE_SIZE
                 < push_bit (log_sector_size dsk - GRUB_DISK_SECTOR_BITS) (total_sectors dsk) \<longrightarrow>
           lock (grub_disk_cache_table (snd (snd (grub_disk_read_small d dsk sec off sz st)))
                  (slot_of dev disk sec)))"
proof -
  let ?i = "slot_of dev disk sec"
  let ?f = "grub_disk_cache_fetch dev disk sec tbl"
  from m e have f: "?f = (None, tbl(?i := (tbl ?i)\<lparr>lock := True\<rparr>))"
    by (simp add: grub_disk_cache_fetch_def Let_def)
  have l: "lock (snd ?f ?i)"
    by (simp add: f)
  have s: "\<And>dev' disk' sec' buf (st :: 'h grub_state).
      slot_of dev' disk' sec' = ?i \<Longrightarrow>
      \<not> lock (grub_disk_cache_table (snd (grub_disk_cache_store dev' disk' sec' buf st)) ?i)"
    using store_unlocks by metis
  have r: "lock (grub_disk_cache_table (snd (snd (grub_disk_read_small d dsk sec off sz st))) ?i)"
    if "dev_ident d = dev" "ident dsk = disk" "grub_disk_cache_table st = tbl"
      "total_sectors dsk \<noteq> GRUB_DISK_SIZE_UNKNOWN"
      "\<not> sec + GRUB_DISK_CACHE_SIZE
          < push_bit (log_sector_size dsk - GRUB_DISK_SECTOR_BITS) (total_sectors dsk)"
    for d :: "'h grub_disk_dev" and dsk off sz and st :: "'h grub_state"
  proof -
    obtain ok st1 where g: "grub_malloc (st\<lparr>grub_disk_cache_table := snd ?f\<rparr>) = (ok, st1)"
      by (cases "grub_malloc (st\<lparr>grub_disk_cache_table := snd ?f\<rparr>)")
    have t: "grub_disk_cache_table st1 = snd ?f"
      using malloc_table [of "st\<lparr>grub_disk_cache_table := snd ?f\<rparr>"] g by simp
    show ?thesis
      using that f g t l by (simp add: grub_disk_read_small_def)
  qed
  have a: "(grub_disk_cache_invalidate_all ^^ n) (snd ?f) ?i = snd ?f ?i" for n
    using l by (rule invalidate_all_funpow_locked [of "snd ?f" ?i n])
  show ?thesis
  proof (intro conjI allI impI)
    show "fst ?f = None" by (simp add: f)
    show "snd ?f = tbl(?i := (tbl ?i)\<lparr>lock := True\<rparr>)" by (simp add: f)
    show "lock (snd ?f ?i)" by (rule l)
    show "(grub_disk_cache_invalidate_all ^^ n) (snd ?f) ?i = snd ?f ?i" for n by (rule a)
    show "\<not> lock (grub_disk_cache_table (snd (grub_disk_cache_store dev' disk' sec' buf st)) ?i)"
      if "slot_of dev' disk' sec' = ?i" for dev' disk' sec' buf and st :: "'h grub_state"
      using that by (rule s)
    show "lock (grub_disk_cache_table (snd (snd (grub_disk_read_small d dsk sec off sz st))) ?i)"
      if "dev_ident d = dev \<and> ident dsk = disk \<and> grub_disk_cache_table st = tbl
           \<and> total_sectors dsk \<noteq> GRUB_DISK_SIZE_UNKNOWN
           \<and> \<not> sec + GRUB_DISK_CACHE_SIZE
                 < push_bit (log_sector_size dsk - GRUB_DISK_SECTOR_BITS) (total_sectors dsk)"
      for d :: "'h grub_disk_dev" and dsk off sz and st :: "'h grub_state"
      using that r by blast
  qed
qed


theorem C10_fetch_of_empty_matching_slot_locks_witness:
  "key_match (grub_disk_cache_invalidate 1 2 5 locked_table (slot_of 1 2 0)) 1 2 0
   \<and> data (grub_disk_cache_invalidate 1 2 5 locked_table (slot_of 1 2 0)) = None
   \<and> fst (grub_disk_cache_fetch 1 2 0 (grub_disk_cache_invalidate 1 2 5 locked_table)) = None
   \<and> lock (snd (grub_disk_cache_fetch 1 2 0 (grub_disk_cache_invalidate 1 2 5 locked_table))
             (slot_of 1 2 0))
   \<and> lock ((grub_disk_cache_invalidate_all ^^ 3)
              (snd (grub_disk_cache_fetch 1 2 0 (grub_disk_cache_invalidate 1 2 5 locked_table)))
              (slot_of 1 2 0))"
proof -
  let ?tbl = "grub_disk_cache_invalidate 1 2 5 locked_table"
  have m: "key_match (?tbl (slot_of 1 2 0)) 1 2 0"
    by (simp add: invalidate_locked_table key_match_def)
  have e: "data (?tbl (slot_of 1 2 0)) = None"
    by (simp add: invalidate_locked_table)
  from C10_fetch_of_empty_matching_slot_locks [of ?tbl 1 2 0, OF m e]
  have "fst (grub_disk_cache_fetch 1 2 0 ?tbl) = None"
    and "lock (snd (grub_disk_cache_fetch 1 2 0 ?tbl) (slot_of 1 2 0))"
    and "(grub_disk_cache_invalidate_all ^^ 3) (snd (grub_disk_cache_fetch 1 2 0 ?tbl)) (slot_of 1 2 0)
           = snd (grub_disk_cache_fetch 1 2 0 ?tbl) (slot_of 1 2 0)"
    by blast+
  with m e show ?thesis
    by simp
qed


section \<open>The range check\<close>

lemma need_word:
  assumes "unat off + unat sz + 511 < 2 ^ 64"
  shows "unat (drop_bit GRUB_DISK_SECTOR_BITS (off + sz + GRUB_DISK_SECTOR_SIZE - 1)) = need_exact off sz"
proof -
  have a: "unat (off + sz) = unat off + unat sz"
    using assms by (simp add: unat_add_lem [THEN iffD1])
  have "unat (off + sz + 511) = unat (off + sz) + unat (511 :: 64 word)"
    using assms a by (intro unat_add_lem [THEN iffD1]) simp
  with a have "unat (off + sz + 511) = unat off + unat sz + 511" by simp
  moreover have "off + sz + GRUB_DISK_SECTOR_SIZE - 1 = off + sz + 511" by simp
  ultimately show ?thesis
    by (simp only: unat_drop_bit_div need_exact_def) simp
qed

lemma outside_word:
  assumes "unat off + unat sz + 511 < 2 ^ 64"
  shows "(l \<le> sec \<or> l - sec < drop_bit GRUB_DISK_SECTOR_BITS (off + sz + GRUB_DISK_SECTOR_SIZE - 1))
           = outside l sec (need_exact off sz)"
proof (cases "l \<le> sec")
  case True
  then show ?thesis by (simp add: outside_def word_le_nat_alt)
next
  case False
  then have "sec \<le> l" by simp
  then have "unat (l - sec) = unat l - unat sec" by (rule unat_sub)
  with False need_word [OF assms] show ?thesis
    by (simp add: outside_def word_le_nat_alt word_less_nat_alt)
qed

lemma sector_at_0 [simp]: "sector_at ps sec 0 = sec"
  by (simp add: sector_at_def)

lemma sector_at_Suc [simp]: "sector_at (p # ps) sec (Suc k) = sector_at ps (sec + start p) k"
  by (simp add: sector_at_def)

lemma adjust_partitions_inside:
  assumes "unat off + unat sz + 511 < 2 ^ 64"
  shows "fst (adjust_partitions ps sec off sz)
           = (\<forall>k < length ps. \<not> outside (len (ps ! k)) (sector_at ps sec k) (need_exact off sz))"
proof (induction ps arbitrary: sec)
  case Nil
  show ?case by simp
next
  case (Cons p ps)
  show ?case
    using outside_word [OF assms, of "len p" sec] Cons.IH [of "sec + start p"]
    by (simp add: All_less_Suc2) 
qed

lemma adjust_partitions_sector:
  "fst (adjust_partitions ps sec off sz) \<Longrightarrow>
     snd (adjust_partitions ps sec off sz) = sector_at ps sec (length ps)"
proof (induction ps arbitrary: sec)
  case Nil
  show ?case by simp
next
  case (Cons p ps)
  then show ?case by (simp split: if_splits)
qed


lemma sector_offset_unat:
  "unat ((off :: grub_off_t) AND (GRUB_DISK_SECTOR_SIZE - 1)) = unat off mod 512"
proof -
  have "(GRUB_DISK_SECTOR_SIZE - 1 :: 64 word) = mask 9"
    by (simp add: mask_eq_exp_minus_1)
  then have "off AND (GRUB_DISK_SECTOR_SIZE - 1) = take_bit 9 off"
    by (simp only: take_bit_eq_mask)
  then show ?thesis
    by (simp add: unsigned_take_bit_eq take_bit_eq_mod unat_mod)
qed

text \<open>
  Below the point where \<open>offset + size + 511\<close> leaves 64 bits,
  \<^verbatim>\<open>grub_disk_adjust_range\<close> does what C2 says: the offset is reduced modulo
  512 with its sectors carried into \<open>sector\<close>; the result is \<^verbatim>\<open>OUT_OF_RANGE\<close>
  exactly when some partition of the chain, or the disk of known size, does
  not contain the \<open>\<lceil>(offset + size) / 512\<rceil>\<close> sectors from the running sector
  on; otherwise the result is \<^verbatim>\<open>GRUB_ERR_NONE\<close> with the sum of \<open>sector\<close> and all
  partition starts.
\<close>

lemma adjust_range_exact_without_wrap:
  assumes "unat sz + 1022 < 2 ^ 64"
  shows "(let sec1 = sec + drop_bit GRUB_DISK_SECTOR_BITS off;
              off1 = off AND (GRUB_DISK_SECTOR_SIZE - 1);
              need = need_exact off1 sz;
              ps = partition disk;
              total = push_bit (log_sector_size disk - GRUB_DISK_SECTOR_BITS) (total_sectors disk);
              r = grub_disk_adjust_range disk sec off sz st
          in unat off1 = unat off mod 512
             \<and> (fst r = GRUB_ERR_OUT_OF_RANGE)
                 = ((\<exists>k < length ps. outside (len (ps ! k)) (sector_at ps sec1 k) need)
                    \<or> (total_sectors disk \<noteq> GRUB_DISK_SIZE_UNKNOWN
                        \<and> outside total (sector_at ps sec1 (length ps)) need))
             \<and> (fst r \<noteq> GRUB_ERR_OUT_OF_RANGE
                  \<longrightarrow> r = (GRUB_ERR_NONE, sector_at ps sec1 (length ps), off1, st)))"
proof -
  let ?sec1 = "sec + drop_bit GRUB_DISK_SECTOR_BITS off"
  let ?off1 = "off AND (GRUB_DISK_SECTOR_SIZE - 1)"
  let ?ps = "partition disk"
  have o: "unat ?off1 = unat off mod 512"
    by (rule sector_offset_unat)
  then have "unat ?off1 < 512" by simp
  with assms have nw: "unat ?off1 + unat sz + 511 < 2 ^ 64" by simp
  obtain inside sec2 where ap: "adjust_partitions ?ps ?sec1 ?off1 sz = (inside, sec2)"
    by (cases "adjust_partitions ?ps ?sec1 ?off1 sz")
  have i: "inside = (\<forall>k < length ?ps.
              \<not> outside (len (?ps ! k)) (sector_at ?ps ?sec1 k) (need_exact ?off1 sz))"
    using adjust_partitions_inside [OF nw, of ?ps ?sec1] ap by simp
  have s: "inside \<Longrightarrow> sec2 = sector_at ?ps ?sec1 (length ?ps)"
    using adjust_partitions_sector [of ?ps ?sec1 ?off1 sz] ap by simp
  show ?thesis
  proof (cases inside)
    case False
    with ap i o show ?thesis
      by (auto simp add: grub_disk_adjust_range_def Let_def)
  next
    case True
    note w = outside_word [OF nw,
        of "push_bit (log_sector_size disk - GRUB_DISK_SECTOR_BITS) (total_sectors disk)" sec2]
    from True ap i o s [OF True] w show ?thesis
      by (auto simp add: grub_disk_adjust_range_def Let_def)
  qed
qed

text \<open>
  C2 at a size of \<open>2 ^ 64 - 1\<close> bytes, on a disk with one partition of a single
  sector: the sum \<open>offset + size + 511\<close> wraps around to 510, the function sees a
  need of 0 sectors and returns \<^verbatim>\<open>GRUB_ERR_NONE\<close>, although the partition
  does not hold the \<open>\<lceil>(offset + size) / 512\<rceil> = 2 ^ 55\<close> sectors of the request.
\<close>

theorem C2_need_wraps_around:
  "grub_disk_adjust_range c2_disk 0 0 (- 1) st = (GRUB_ERR_NONE, 0, 0, st)
   \<and> need_exact 0 (- 1) = 2 ^ 55
   \<and> outside (len (partition c2_disk ! 0)) (sector_at (partition c2_disk) 0 0) (need_exact 0 (- 1))"
  by (simp add: grub_disk_adjust_range_def c2_disk_def need_exact_def outside_def Let_def
        unsigned_minus_1_eq_mask mask_eq_exp_minus_1)


section \<open>The name handed to the drivers\<close>

lemma unescaped_comma_0: "unescaped_comma (c # p) 0 = (c = CHR '','')"
  by (simp add: unescaped_comma_def)

lemma unescaped_comma_Suc:
  "unescaped_comma (c # d # p) (Suc j)
     = (if j = 0 then d = CHR '','' \<and> c \<noteq> CHR 0x5C else unescaped_comma (d # p) j)"
  by (cases j) (auto simp add: unescaped_comma_def)

lemma unescaped_comma_skip:
  "unescaped_comma (c # CHR '','' # p) (Suc (Suc j)) = unescaped_comma p j"
  by (cases j) (auto simp add: unescaped_comma_def)

lemma find_part_sep_Some:
  "find_part_sep nm = Some i \<Longrightarrow> unescaped_comma nm i \<and> (\<forall>j < i. \<not> unescaped_comma nm j)"
proof (induction nm arbitrary: i rule: find_part_sep.induct)
  case 1
  then show ?case by simp
next
  case (2 c)
  then show ?case by (simp add: unescaped_comma_def split: if_splits)
next
  case (3 c d p)
  show ?case
  proof (cases "c = CHR 0x5C \<and> d = CHR '',''")
    case True
    with "3.prems" obtain i' where i': "find_part_sep p = Some i'" "i = i' + 2"
      by auto
    from "3.IH"(1) [OF True i'(1)] have
      u: "unescaped_comma p i'" and l: "\<forall>j < i'. \<not> unescaped_comma p j"
      by simp_all
    have "\<not> unescaped_comma (c # d # p) j" if "j < i" for j
    proof (cases j)
      case 0
      with True show ?thesis by (simp add: unescaped_comma_0)
    next
      case (Suc j1)
      show ?thesis
      proof (cases j1)
        case 0
        with Suc True show ?thesis by (simp add: unescaped_comma_Suc)
      next
        case (Suc j2)
        with \<open>j = Suc j1\<close> that i'(2) have "j2 < i'" by simp
        with l True \<open>j = Suc j1\<close> Suc show ?thesis
          by (simp add: unescaped_comma_skip)
      qed
    qed
    with u True i'(2) show ?thesis
      by (simp add: unescaped_comma_skip)
  next
    case False
    show ?thesis
    proof (cases "c = CHR '',''")
      case True
      with False "3.prems" show ?thesis
        by (auto simp add: unescaped_comma_0)
    next
      case c: False
      with False "3.prems" obtain i' where i': "find_part_sep (d # p) = Some i'" "i = Suc i'"
        by auto
      from "3.IH"(2) [OF False c i'(1)] have
        u: "unescaped_comma (d # p) i'" and l: "\<forall>j < i'. \<not> unescaped_comma (d # p) j"
        by simp_all
      have d: "d = CHR '','' \<Longrightarrow> i' = 0"
        using l unescaped_comma_0 [of d p] by (cases i') auto
      have "unescaped_comma (c # d # p) (Suc i')"
        using u False d by (auto simp add: unescaped_comma_Suc unescaped_comma_0)
      moreover have "\<not> unescaped_comma (c # d # p) j" if "j < i" for j
      proof (cases j)
        case 0
        with c show ?thesis by (simp add: unescaped_comma_0)
      next
        case (Suc j1)
        with that i'(2) have "j1 < i'" by simp
        with l have n: "\<not> unescaped_comma (d # p) j1" by simp
        then have "j1 = 0 \<Longrightarrow> d \<noteq> CHR '',''"
          by (auto simp add: unescaped_comma_0)
        with n Suc show ?thesis
          by (auto simp add: unescaped_comma_Suc)
      qed
      ultimately show ?thesis using i'(2) by simp
    qed
  qed
qed

lemma find_part_sep_None:
  "find_part_sep nm = None \<Longrightarrow> \<not> unescaped_comma nm j"
proof (induction nm arbitrary: j rule: find_part_sep.induct)
  case 1
  then show ?case by (simp add: unescaped_comma_def)
next
  case (2 c)
  then show ?case by (cases j) (simp_all add: unescaped_comma_def split: if_splits)
next
  case (3 c d p)
  show ?case
  proof (cases "c = CHR 0x5C \<and> d = CHR '',''")
    case True
    with "3.prems" have "find_part_sep p = None" by simp
    from "3.IH"(1) [OF True this] have n: "\<not> unescaped_comma p k" for k .
    show ?thesis
    proof (cases j)
      case 0
      with True show ?thesis by (simp add: unescaped_comma_0)
    next
      case (Suc j1)
      show ?thesis
      proof (cases j1)
        case 0
        with Suc True show ?thesis by (simp add: unescaped_comma_Suc)
      next
        case (Suc j2)
        with \<open>j = Suc j1\<close> True n [of j2] show ?thesis
          by (simp add: unescaped_comma_skip)
      qed
    qed
  next
    case False
    with "3.prems" have c: "c \<noteq> CHR '',''" and f: "find_part_sep (d # p) = None"
      by (auto split: if_splits)
    from "3.IH"(2) [OF False c f] have n: "\<not> unescaped_comma (d # p) k" for k .
    from n [of 0] have "d \<noteq> CHR '',''" by (simp add: unescaped_comma_0)
    with n c show ?thesis
      by (cases j) (simp_all add: unescaped_comma_0 unescaped_comma_Suc)
  qed
qed

lemma find_part_sep_first:
  "(find_part_sep nm = Some i) = (unescaped_comma nm i \<and> (\<forall>j < i. \<not> unescaped_comma nm j))"
proof
  assume "find_part_sep nm = Some i"
  then show "unescaped_comma nm i \<and> (\<forall>j < i. \<not> unescaped_comma nm j)"
    by (rule find_part_sep_Some)
next
  assume a: "unescaped_comma nm i \<and> (\<forall>j < i. \<not> unescaped_comma nm j)"
  then obtain i' where i': "find_part_sep nm = Some i'"
    using find_part_sep_None [of nm i] by (cases "find_part_sep nm") auto
  from find_part_sep_Some [OF i'] a have "\<not> i' < i" "\<not> i < i'" by auto
  with i' show "find_part_sep nm = Some i" by simp
qed


lemma malloc_events [simp]: "events (snd (grub_malloc st)) = events st"
  by (simp add: grub_malloc_def split: list.splits)

lemma malloc_eventsD: "grub_malloc st = (ok, st') \<Longrightarrow> events st' = events st"
  using malloc_events [of st] by simp

lemma open_walk_events:
  "\<exists>n. events (snd (snd (open_walk devs k raw disk st)))
          = events st @ map (\<lambda>j. Ev_dev_open j raw) [k..<k + n]
       \<and> n \<le> length devs \<and> (devs \<noteq> [] \<longrightarrow> 0 < n)"
proof (induction devs arbitrary: k disk st)
  case Nil
  show ?case by simp
next
  case (Cons d devs)
  obtain err disk1 h where o: "dev_open d raw disk (hw st) = (err, disk1, h)"
    by (cases "dev_open d raw disk (hw st)")
  let ?st1 = "st\<lparr>hw := h,
                  grub_errno := (if err = GRUB_ERR_NONE then grub_errno st else err),
                  events := events st @ [Ev_dev_open k raw]\<rparr>"
  show ?case
  proof (cases "err \<noteq> GRUB_ERR_NONE \<and> grub_errno ?st1 = GRUB_ERR_UNKNOWN_DEVICE")
    case False
    then have "events (snd (snd (open_walk (d # devs) k raw disk st)))
                 = events st @ map (\<lambda>j. Ev_dev_open j raw) [k..<k + 1]"
      using o by (auto simp add: Let_def)
    then show ?thesis by (intro exI [of _ 1]) simp
  next
    case True
    then have w: "open_walk (d # devs) k raw disk st
                 = open_walk devs (Suc k) raw disk1 (?st1\<lparr>grub_errno := GRUB_ERR_NONE\<rparr>)"
      using o by (auto simp add: Let_def split: if_splits)
    from Cons.IH [of "Suc k" disk1 "?st1\<lparr>grub_errno := GRUB_ERR_NONE\<rparr>"]
    obtain n where n: "events (snd (snd (open_walk devs (Suc k) raw disk1
                                  (?st1\<lparr>grub_errno := GRUB_ERR_NONE\<rparr>))))
          = (events st @ [Ev_dev_open k raw]) @ map (\<lambda>j. Ev_dev_open j raw) [Suc k..<Suc k + n]"
      "n \<le> length devs"
      by auto
    have "[k..<k + Suc n] = k # [Suc k..<Suc k + n]"
      by (simp add: upt_conv_Cons)
    with n w show ?thesis
      by (intro exI [of _ "Suc n"]) simp
  qed
qed


lemma open_walk_calls_ok:
  "\<exists>new. events (snd (snd (open_walk devs k raw disk st))) = events st @ new
         \<and> (\<forall>e \<in> set new. \<exists>j. e = Ev_dev_open j raw)
         \<and> (devs \<noteq> [] \<longrightarrow> new \<noteq> [] \<and> hd new = Ev_dev_open k raw)"
proof -
  from open_walk_events [of devs k raw disk st] obtain n where
    n: "events (snd (snd (open_walk devs k raw disk st)))
          = events st @ map (\<lambda>j. Ev_dev_open j raw) [k..<k + n]"
       "devs \<noteq> [] \<longrightarrow> 0 < n"
    by auto
  have "hd (map (\<lambda>j. Ev_dev_open j raw) [k..<k + n]) = Ev_dev_open k raw" if "0 < n"
    using that by (simp add: upt_conv_Cons)
  with n show ?thesis
    by (intro exI [of _ "map (\<lambda>j. Ev_dev_open j raw) [k..<k + n]"]) auto
qed

lemma open_finish_events:
  "\<exists>new. events (snd (open_finish disk dev now st)) = events st @ new
         \<and> (\<forall>e \<in> set new. e = Ev_dev_close)"
  by (simp add: open_finish_def grub_disk_close_def)

lemma grub_error_events [simp]: "events (grub_error n fmt args st) = events st"
  by (simp add: grub_error_def)

lemma open_finish_calls_ok:
  assumes "events s = events st @ xs" and "\<forall>e \<in> set xs. open_call_ok nm e"
  shows "\<exists>new. events (snd (open_finish d dv now s)) = events st @ new
           \<and> (\<forall>e \<in> set new. open_call_ok nm e)"
  using assms by (auto simp add: open_finish_def grub_disk_close_def open_call_ok_def)

lemma open_events:
  "\<exists>new. events (snd (grub_disk_open devs probe now nm st)) = events st @ new
         \<and> (\<forall>e \<in> set new. open_call_ok nm e)"
proof -
  obtain ok0 st0 where m0: "grub_malloc st = (ok0, st0)"
    by (cases "grub_malloc st")
  then have e0: "events st0 = events st"
    by (rule malloc_eventsD)
  let ?disk0 = "\<lparr>name = [], ident = 0, total_sectors = 0,
                 log_sector_size = GRUB_DISK_SECTOR_BITS, partition = [], read_hook = False\<rparr>"
  let ?p = "find_part_sep nm"
  obtain ok1 st1 where m1: "(case ?p of None \<Rightarrow> (True, st0) | Some i \<Rightarrow> grub_malloc st0) = (ok1, st1)"
    by (cases "case ?p of None \<Rightarrow> (True, st0) | Some i \<Rightarrow> grub_malloc st0")
  then have e1: "events st1 = events st"
    using e0 by (auto split: option.splits dest: malloc_eventsD)
  obtain ok2 st2 where m2: "grub_malloc st1 = (ok2, st2)"
    by (cases "grub_malloc st1")
  then have e2: "events st2 = events st"
    using e1 by (auto dest: malloc_eventsD)
  obtain w disk1 st3 where w: "open_walk devs 0 (raw_name nm) (?disk0\<lparr>name := raw_name nm\<rparr>) st2 = (w, disk1, st3)"
    by (cases "open_walk devs 0 (raw_name nm) (?disk0\<lparr>name := raw_name nm\<rparr>) st2")
  from open_walk_calls_ok [of devs 0 "raw_name nm" "?disk0\<lparr>name := raw_name nm\<rparr>" st2] w e2
  obtain new where new: "events st3 = events st @ new" "\<forall>e \<in> set new. \<exists>j. e = Ev_dev_open j (raw_name nm)"
    by auto
  then have ok3: "\<forall>e \<in> set new. open_call_ok nm e"
    by (auto simp add: open_call_ok_def)
  have raw: "(case ?p of None \<Rightarrow> nm | Some i \<Rightarrow> take i nm) = raw_name nm"
    by (simp add: raw_name_def)
  have nil: "\<forall>e \<in> set []. open_call_ok nm e" by simp
  have "(\<exists>d dv s xs. grub_disk_open devs probe now nm st = open_finish d dv now s
          \<and> events s = events st @ xs \<and> (\<forall>e \<in> set xs. open_call_ok nm e))
        \<or> snd (grub_disk_open devs probe now nm st) = st0"
  proof (cases ok0)
    case False
    with m0 show ?thesis
      by (simp add: grub_disk_open_def)
  next
    case ok0: True
    show ?thesis
    proof (cases ok1)
      case False
      with ok0 m0 m1 have "grub_disk_open devs probe now nm st = open_finish ?disk0 None now st1"
        by (simp add: grub_disk_open_def Let_def)
      with e1 nil show ?thesis
        by (intro disjI1 exI [of _ ?disk0] exI [of _ None] exI [of _ st1] exI [of _ "[]"]) simp
    next
      case ok1: True
      show ?thesis
      proof (cases ok2)
        case False
        with ok0 ok1 m0 m1 m2
        have "grub_disk_open devs probe now nm st = open_finish ?disk0 None now st2"
          by (simp add: grub_disk_open_def Let_def)
        with e2 nil show ?thesis
          by (intro disjI1 exI [of _ ?disk0] exI [of _ None] exI [of _ st2] exI [of _ "[]"]) simp
      next
        case ok2: True
        note pre = ok0 ok1 ok2 m0 m1 m2 w raw
        show ?thesis
        proof (cases w)
          case Walk_fail
          with pre have "grub_disk_open devs probe now nm st = open_finish disk1 None now st3"
            by (simp add: grub_disk_open_def Let_def)
          with new(1) ok3 show ?thesis by blast
        next
          case Walk_end
          let ?s = "grub_error GRUB_ERR_UNKNOWN_DEVICE
                      (''disk `%s'' @ [CHR 0x27] @ '' not found'') [nm] st3"
          have "events ?s = events st @ new" using new(1) by simp
          moreover from Walk_end pre
          have "grub_disk_open devs probe now nm st = open_finish disk1 None now ?s"
            by (simp add: grub_disk_open_def Let_def)
          ultimately show ?thesis using ok3 by blast
        next
          case (Walk_found k)
          show ?thesis
          proof (cases "log_sector_size disk1 > GRUB_DISK_CACHE_BITS + GRUB_DISK_SECTOR_BITS
                          \<or> log_sector_size disk1 < GRUB_DISK_SECTOR_BITS")
            case True
            let ?s = "grub_error GRUB_ERR_NOT_IMPLEMENTED_YET
                        (''sector sizes of %d bytes aren'' @ [CHR 0x27] @ ''t supported yet'') [] st3"
            have "events ?s = events st @ new" using new(1) by simp
            moreover from True Walk_found pre
            have "grub_disk_open devs probe now nm st = open_finish disk1 None now ?s"
              by (simp add: grub_disk_open_def Let_def)
            ultimately show ?thesis using ok3 by blast
          next
            case valid: False
            show ?thesis
            proof (cases ?p)
              case None
              let ?s = "st3\<lparr>grub_disk_cache_table :=
                              (if now > grub_last_time st3 + 2 * 1000
                               then grub_disk_cache_invalidate_all (grub_disk_cache_table st3)
                               else grub_disk_cache_table st3),
                            grub_last_time := now\<rparr>"
              have "events ?s = events st @ new" using new(1) by simp
              moreover from None valid Walk_found pre
              have "grub_disk_open devs probe now nm st = open_finish disk1 (Some k) now ?s"
                by (simp add: grub_disk_open_def Let_def)
              ultimately show ?thesis using ok3 by blast
            next
              case (Some i)
              let ?new = "new @ [Ev_partition_probe (drop (i + 1) nm)]"
              let ?st4 = "st3\<lparr>events := events st3 @ [Ev_partition_probe (drop (i + 1) nm)]\<rparr>"
              let ?disk2 = "disk1\<lparr>partition := probe disk1 (drop (i + 1) nm)\<rparr>"
              have ok4: "\<forall>e \<in> set ?new. open_call_ok nm e"
                using ok3 Some by (simp add: open_call_ok_def)
              show ?thesis
              proof (cases "partition ?disk2 = []")
                case True
                let ?s = "grub_error GRUB_ERR_UNKNOWN_DEVICE ''no such partition'' [] ?st4"
                have "events ?s = events st @ ?new" using new(1) by simp
                moreover from True Some valid Walk_found pre
                have "grub_disk_open devs probe now nm st = open_finish ?disk2 (Some k) now ?s"
                  by (simp add: grub_disk_open_def Let_def)
                ultimately show ?thesis using ok4 by blast
              next
                case False
                let ?s = "?st4\<lparr>grub_disk_cache_table :=
                              (if now > grub_last_time ?st4 + 2 * 1000
                               then grub_disk_cache_invalidate_all (grub_disk_cache_table ?st4)
                               else grub_disk_cache_table ?st4),
                            grub_last_time := now\<rparr>"
                have "events ?s = events st @ ?new" using new(1) by simp
                moreover from False Some valid Walk_found pre
                have "grub_disk_open devs probe now nm st = open_finish ?disk2 (Some k) now ?s"
                  by (simp add: grub_disk_open_def Let_def cong: if_cong)
                ultimately show ?thesis using ok4 by blast
              qed
            qed
          qed
        qed
      qed
    qed
  qed
  then show ?thesis
  proof
    assume "\<exists>d dv s xs. grub_disk_open devs probe now nm st = open_finish d dv now s
          \<and> events s = events st @ xs \<and> (\<forall>e \<in> set xs. open_call_ok nm e)"
    then obtain d dv s xs where
      "grub_disk_open devs probe now nm st = open_finish d dv now s"
      "events s = events st @ xs" "\<forall>e \<in> set xs. open_call_ok nm e"
      by blast
    with open_finish_calls_ok [of s st xs nm d dv now] show ?thesis
      by simp
  next
    assume "snd (grub_disk_open devs probe now nm st) = st0"
    with e0 show ?thesis by simp
  qed
qed

text \<open>
  C4, as stated: \<^verbatim>\<open>open("my\\,disk,1")\<close> hands \<^verbatim>\<open>my,disk\<close> to the driver. The
  driver receives the characters before the separating comma as they are, with
  the backslash.
\<close>

lemma open_escaped_name:
  "events (snd (grub_disk_open [any_dev] one_partition 0 escaped_name boot_state))
     = [Ev_dev_open 0 (''my'' @ [CHR 0x5C] @ '',disk''), Ev_partition_probe ''1'']"
  by (simp add: grub_disk_open_def any_dev_def boot_state_def one_partition_def escaped_name_def
        grub_malloc_def open_finish_def Let_def)

theorem C4_unescaped_name_counterexample:
  "events (snd (grub_disk_open [any_dev] one_partition 0 escaped_name boot_state))
     = [Ev_dev_open 0 (''my'' @ [CHR 0x5C] @ '',disk''), Ev_partition_probe ''1'']
   \<and> Ev_dev_open 0 ''my,disk''
       \<notin> set (events (snd (grub_disk_open [any_dev] one_partition 0 escaped_name boot_state)))"
  by (simp add: open_escaped_name)

text \<open>
  C4, amended: \<^verbatim>\<open>grub_disk_open\<close> splits its name at the first comma that is
  not preceded by a backslash; every driver's \<^verbatim>\<open>open\<close> receives the characters
  before that comma unchanged (a backslash-comma pair stays in the name as two
  characters), or the whole name when there is no such comma, and the
  partition prober receives the characters after the comma. In particular
  \<^verbatim>\<open>open("my\\,disk,1")\<close> hands \<^verbatim>\<open>my\,disk\<close> to the driver and \<^verbatim>\<open>1\<close> to the
  prober.
\<close>

theorem C4_name_split_at_first_unescaped_comma:
  "(find_part_sep nm = Some i) = (unescaped_comma nm i \<and> (\<forall>j < i. \<not> unescaped_comma nm j))
   \<and> (find_part_sep nm = None) = (\<forall>j. \<not> unescaped_comma nm j)
   \<and> raw_name nm = (case find_part_sep nm of None \<Rightarrow> nm | Some k \<Rightarrow> take k nm)
   \<and> (\<exists>new. events (snd (grub_disk_open devs probe now nm st)) = events st @ new
          \<and> (\<forall>e \<in> set new. open_call_ok nm e))"
proof -
  have "(find_part_sep nm = None) = (\<forall>j. \<not> unescaped_comma nm j)"
  proof
    assume "find_part_sep nm = None"
    then show "\<forall>j. \<not> unescaped_comma nm j"
      by (auto dest: find_part_sep_None)
  next
    assume n: "\<forall>j. \<not> unescaped_comma nm j"
    show "find_part_sep nm = None"
    proof (cases "find_part_sep nm")
      case None
      then show ?thesis .
    next
      case (Some k)
      with find_part_sep_Some [of nm k] n show ?thesis by simp
    qed
  qed
  with find_part_sep_first [of nm i] open_events [of devs probe now nm st] show ?thesis
    by (simp add: raw_name_def)
qed

theorem C4_name_split_at_first_unescaped_comma_witness:
  "find_part_sep escaped_name = Some 8
   \<and> unescaped_comma escaped_name 8
   \<and> \<not> unescaped_comma escaped_name 3
   \<and> raw_name escaped_name = ''my'' @ [CHR 0x5C] @ '',disk''
   \<and> events (snd (grub_disk_open [any_dev] one_partition 0 escaped_name boot_state))
       = [Ev_dev_open 0 (''my'' @ [CHR 0x5C] @ '',disk''), Ev_partition_probe ''1'']
   \<and> open_call_ok escaped_name (Ev_dev_open 0 (''my'' @ [CHR 0x5C] @ '',disk''))
   \<and> open_call_ok escaped_name (Ev_partition_probe ''1'')"
proof -
  have f: "find_part_sep escaped_name = Some 8"
    by (simp add: escaped_name_def)
  have e: "events boot_state = []"
    by (simp add: boot_state_def)
  from C4_name_split_at_first_unescaped_comma
    [of escaped_name 8 "[any_dev]" one_partition 0 boot_state] f
  have u: "unescaped_comma escaped_name 8" "\<not> unescaped_comma escaped_name 3"
    and r: "raw_name escaped_name = take 8 escaped_name"
    and "\<exists>new. events (snd (grub_disk_open [any_dev] one_partition 0 escaped_name boot_state))
                 = events boot_state @ new \<and> (\<forall>e \<in> set new. open_call_ok escaped_name e)"
    by simp_all
  with e open_escaped_name
  have "open_call_ok escaped_name (Ev_dev_open 0 (''my'' @ [CHR 0x5C] @ '',disk''))"
    and "open_call_ok escaped_name (Ev_partition_probe ''1'')"
    by simp_all
  moreover from r have "raw_name escaped_name = ''my'' @ [CHR 0x5C] @ '',disk''"
    by (simp add: escaped_name_def)
  ultimately show ?thesis
    using f u open_escaped_name by simp
qed


section \<open>The walk over the drivers\<close>

lemma malloc_hw: "grub_malloc st = (ok, st') \<Longrightarrow> hw st' = hw st"
  by (auto simp add: grub_malloc_def split: list.splits)

lemma malloc_fail_errno:
  "grub_malloc st = (False, st') \<Longrightarrow> grub_errno st' = GRUB_ERR_OUT_OF_MEMORY"
  by (auto simp add: grub_malloc_def split: list.splits)

lemma declined_walk:
  "declined pre raw disk (hw st) = Some (disk1, h1) \<Longrightarrow>
     open_walk (pre @ rest) k raw disk st
       = open_walk rest (k + length pre) raw disk1
           (st\<lparr>hw := h1,
               grub_errno := (if pre = [] then grub_errno st else GRUB_ERR_NONE),
               events := events st @ map (\<lambda>j. Ev_dev_open j raw) [k..<k + length pre]\<rparr>)"
proof (induction pre arbitrary: k disk st)
  case Nil
  then show ?case by auto
next
  case (Cons d pre)
  obtain err disk' h' where o: "dev_open d raw disk (hw st) = (err, disk', h')"
    by (cases "dev_open d raw disk (hw st)")
  with Cons.prems have err: "err = GRUB_ERR_UNKNOWN_DEVICE"
    and rest: "declined pre raw disk' h' = Some (disk1, h1)"
    by (auto split: if_splits)
  let ?st1 = "st\<lparr>hw := h', grub_errno := GRUB_ERR_UNKNOWN_DEVICE,
                  events := events st @ [Ev_dev_open k raw], grub_errno := GRUB_ERR_NONE\<rparr>"
  have w: "open_walk ((d # pre) @ rest) k raw disk st
             = open_walk (pre @ rest) (Suc k) raw disk' ?st1"
    using o err by (simp add: Let_def)
  from rest have "declined pre raw disk' (hw ?st1) = Some (disk1, h1)" by simp
  note ih = Cons.IH [OF this, of "Suc k"]
  have u: "[k..<k + length (d # pre)] = k # [Suc k..<Suc k + length pre]"
    by (subst upt_rec) simp
  show ?case
    unfolding w ih u by simp
qed

lemma open_allocs_None:
  assumes "open_allocs nm st = None"
  shows "fst (grub_disk_open devs probe now nm st) = None
     \<and> events (snd (grub_disk_open devs probe now nm st)) = events st
     \<and> grub_errno (snd (grub_disk_open devs probe now nm st)) = GRUB_ERR_OUT_OF_MEMORY"
proof -
  obtain ok0 st0 where m0: "grub_malloc st = (ok0, st0)"
    by (cases "grub_malloc st")
  obtain ok1 st1 where
    m1: "(case find_part_sep nm of None \<Rightarrow> (True, st0) | Some i \<Rightarrow> grub_malloc st0) = (ok1, st1)"
    by (cases "case find_part_sep nm of None \<Rightarrow> (True, st0) | Some i \<Rightarrow> grub_malloc st0")
  obtain ok2 st2 where m2: "grub_malloc st1 = (ok2, st2)"
    by (cases "grub_malloc st1")
  from m0 have e0: "events st0 = events st" by (rule malloc_eventsD)
  from m1 e0 have e1: "events st1 = events st"
    by (auto split: option.splits dest: malloc_eventsD)
  from m2 e1 have e2: "events st2 = events st"
    by (auto dest: malloc_eventsD)
  show ?thesis
  proof (cases ok0)
    case False
    with m0 malloc_fail_errno [of st st0] e0 show ?thesis
      by (simp add: grub_disk_open_def)
  next
    case ok0: True
    show ?thesis
    proof (cases ok1)
      case False
      with m1 have "grub_errno st1 = GRUB_ERR_OUT_OF_MEMORY"
        by (auto split: option.splits dest: malloc_fail_errno)
      with False ok0 m0 m1 e1 show ?thesis
        by (simp add: grub_disk_open_def open_finish_def grub_disk_close_def Let_def)
    next
      case ok1: True
      from assms ok0 ok1 m0 m1 m2 have "\<not> ok2"
        by (auto simp add: open_allocs_def Let_def)
      with m2 have "grub_errno st2 = GRUB_ERR_OUT_OF_MEMORY"
        by (auto dest: malloc_fail_errno)
      with \<open>\<not> ok2\<close> ok0 ok1 m0 m1 m2 e2 show ?thesis
        by (simp add: grub_disk_open_def open_finish_def grub_disk_close_def Let_def)
    qed
  qed
qed

lemma open_allocs_Some:
  assumes a: "open_allocs nm st = Some st2"
  shows "hw st2 = hw st" "events st2 = events st"
    "grub_disk_open devs probe now nm st =
       (case open_walk devs 0 (raw_name nm) (new_disk (raw_name nm)) st2 of
          (Walk_fail, disk1, st3) \<Rightarrow> open_finish disk1 None now st3
        | (Walk_end, disk1, st3) \<Rightarrow>
            open_finish disk1 None now
              (grub_error GRUB_ERR_UNKNOWN_DEVICE
                 (''disk `%s'' @ [CHR 0x27] @ '' not found'') [nm] st3)
        | (Walk_found k, disk1, st3) \<Rightarrow>
            if log_sector_size disk1 > GRUB_DISK_CACHE_BITS + GRUB_DISK_SECTOR_BITS
               \<or> log_sector_size disk1 < GRUB_DISK_SECTOR_BITS
            then open_finish disk1 None now
                   (grub_error GRUB_ERR_NOT_IMPLEMENTED_YET
                      (''sector sizes of %d bytes aren'' @ [CHR 0x27]
                         @ ''t supported yet'') [] st3)
            else
              (let disk2 = (case find_part_sep nm of
                              None \<Rightarrow> disk1
                            | Some i \<Rightarrow>
                                disk1\<lparr>partition := probe disk1 (drop (i + 1) nm)\<rparr>);
                   st4 = (case find_part_sep nm of
                            None \<Rightarrow> st3
                          | Some i \<Rightarrow>
                              st3\<lparr>events := events st3
                                     @ [Ev_partition_probe (drop (i + 1) nm)]\<rparr>)
               in if find_part_sep nm \<noteq> None \<and> partition disk2 = []
                  then open_finish disk2 (Some k) now
                         (grub_error GRUB_ERR_UNKNOWN_DEVICE ''no such partition'' [] st4)
                  else
                    open_finish disk2 (Some k) now
                      (st4\<lparr>grub_disk_cache_table :=
                              (if now > grub_last_time st4 + 2 * 1000
                               then grub_disk_cache_invalidate_all
                                      (grub_disk_cache_table st4)
                               else grub_disk_cache_table st4),
                            grub_last_time := now\<rparr>)))"
proof -
  obtain ok0 st0 where m0: "grub_malloc st = (ok0, st0)"
    by (cases "grub_malloc st")
  obtain ok1 st1 where
    m1: "(case find_part_sep nm of None \<Rightarrow> (True, st0) | Some i \<Rightarrow> grub_malloc st0) = (ok1, st1)"
    by (cases "case find_part_sep nm of None \<Rightarrow> (True, st0) | Some i \<Rightarrow> grub_malloc st0")
  obtain ok2 st2' where m2: "grub_malloc st1 = (ok2, st2')"
    by (cases "grub_malloc st1")
  from a m0 m1 m2 have ok: "ok0" "ok1" "ok2" "st2' = st2"
    by (auto simp add: open_allocs_def Let_def split: if_splits)
  from m0 have e0: "events st0 = events st" "hw st0 = hw st"
    by (auto dest: malloc_eventsD malloc_hw)
  from m1 e0 have e1: "events st1 = events st" "hw st1 = hw st"
    by (auto split: option.splits dest: malloc_eventsD malloc_hw)
  from m2 e1 ok show "hw st2 = hw st" "events st2 = events st"
    by (auto dest: malloc_eventsD malloc_hw)
  have raw: "(case find_part_sep nm of None \<Rightarrow> nm | Some i \<Rightarrow> take i nm) = raw_name nm"
    by (simp add: raw_name_def)
  have nd: "\<lparr>name = [], ident = 0, total_sectors = 0,
             log_sector_size = GRUB_DISK_SECTOR_BITS, partition = [],
             read_hook = False\<rparr>\<lparr>name := raw_name nm\<rparr> = new_disk (raw_name nm)"
    by (simp add: new_disk_def)
  show "grub_disk_open devs probe now nm st = (case open_walk devs 0 (raw_name nm) (new_disk (raw_name nm)) st2 of
          (Walk_fail, disk1, st3) \<Rightarrow> open_finish disk1 None now st3
        | (Walk_end, disk1, st3) \<Rightarrow>
            open_finish disk1 None now
              (grub_error GRUB_ERR_UNKNOWN_DEVICE
                 (''disk `%s'' @ [CHR 0x27] @ '' not found'') [nm] st3)
        | (Walk_found k, disk1, st3) \<Rightarrow>
            if log_sector_size disk1 > GRUB_DISK_CACHE_BITS + GRUB_DISK_SECTOR_BITS
               \<or> log_sector_size disk1 < GRUB_DISK_SECTOR_BITS
            then open_finish disk1 None now
                   (grub_error GRUB_ERR_NOT_IMPLEMENTED_YET
                      (''sector sizes of %d bytes aren'' @ [CHR 0x27]
                         @ ''t supported yet'') [] st3)
            else
              (let disk2 = (case find_part_sep nm of
                              None \<Rightarrow> disk1
                            | Some i \<Rightarrow>
                                disk1\<lparr>partition := probe disk1 (drop (i + 1) nm)\<rparr>);
                   st4 = (case find_part_sep nm of
                            None \<Rightarrow> st3
                          | Some i \<Rightarrow>
                              st3\<lparr>events := events st3
                                     @ [Ev_partition_probe (drop (i + 1) nm)]\<rparr>)
               in if find_part_sep nm \<noteq> None \<and> partition disk2 = []
                  then open_finish disk2 (Some k) now
                         (grub_error GRUB_ERR_UNKNOWN_DEVICE ''no such partition'' [] st4)
                  else
                    open_finish disk2 (Some k) now
                      (st4\<lparr>grub_disk_cache_table :=
                              (if now > grub_last_time st4 + 2 * 1000
                               then grub_disk_cache_invalidate_all
                                      (grub_disk_cache_table st4)
                               else grub_disk_cache_table st4),
                            grub_last_time := now\<rparr>)))"
    unfolding grub_disk_open_def Let_def m0 prod.case m1 m2 raw nd
    using ok by simp
qed

lemma malloc_empty: "mm st = [] \<Longrightarrow> grub_malloc st = (True, st)"
  by (simp add: grub_malloc_def)


text \<open>
  C9, as stated: when every driver declines, the message is
  \<^verbatim>\<open>disk '%s' not found\<close>. The format that \<^verbatim>\<open>grub_disk_open\<close> passes to
  \<^verbatim>\<open>grub_error\<close> opens the quotation with a backquote.
\<close>

theorem C9_message_counterexample:
  "fst (grub_disk_open [no_dev] one_partition 0 ''hd0'' boot_state) = None
   \<and> grub_errno (snd (grub_disk_open [no_dev] one_partition 0 ''hd0'' boot_state))
       = GRUB_ERR_UNKNOWN_DEVICE
   \<and> fst (grub_errmsg (snd (grub_disk_open [no_dev] one_partition 0 ''hd0'' boot_state)))
       = ''disk '' @ [CHR 0x60] @ ''%s'' @ [CHR 0x27] @ '' not found''
   \<and> fst (grub_errmsg (snd (grub_disk_open [no_dev] one_partition 0 ''hd0'' boot_state)))
       \<noteq> ''disk '' @ [CHR 0x27] @ ''%s'' @ [CHR 0x27] @ '' not found''"
  by (simp add: grub_disk_open_def no_dev_def any_dev_def boot_state_def grub_malloc_def
        open_finish_def grub_disk_close_def grub_error_def Let_def)

text \<open>
  C9, amended: in the walk over the driver list a driver whose \<^verbatim>\<open>open\<close> fails
  with \<^verbatim>\<open>UNKNOWN_DEVICE\<close> is passed over, the error is cleared and the next
  driver is tried; any other driver error ends \<^verbatim>\<open>grub_disk_open\<close> at once, with
  a null result, that error in \<^verbatim>\<open>grub_errno\<close> and no later driver called; and
  when every registered driver declines, \<^verbatim>\<open>grub_disk_open\<close> fails with
  \<^verbatim>\<open>UNKNOWN_DEVICE\<close> and the message \<^verbatim>\<open>disk `%s' not found\<close> (with an opening
  backquote) for the name.

  The drivers are arbitrary: \<open>pre\<close> are drivers that decline when they are called
  in turn, \<open>d\<close> is the driver after them and \<open>e\<close> is what its \<^verbatim>\<open>open\<close> returns
  on the disk and the device state they leave. The walk is reached when the
  allocations of \<^verbatim>\<open>grub_disk_open\<close> succeed; when one of them fails the
  function returns null with \<^verbatim>\<open>OUT_OF_MEMORY\<close> and calls no driver. In the walk
  the driver \<open>d\<close> is called after the drivers \<open>pre\<close>; when it opens the disk
  (and the sector size it sets is supported and the partition, if one is named,
  is found) the disk is returned with \<open>d\<close> as its driver and \<^verbatim>\<open>grub_errno\<close> clear,
  although the drivers before it have failed.
\<close>

theorem C9_driver_walk:
  assumes pre: "declined pre (raw_name nm) (new_disk (raw_name nm)) (hw st) = Some (disk1, h1)"
    and d: "dev_open d (raw_name nm) disk1 h1 = (e, disk2, h2)"
  shows
    "(open_allocs nm st = None \<longrightarrow>
        fst (grub_disk_open devs probe now nm st) = None
        \<and> grub_errno (snd (grub_disk_open devs probe now nm st)) = GRUB_ERR_OUT_OF_MEMORY
        \<and> events (snd (grub_disk_open devs probe now nm st)) = events st)
     \<and> (open_allocs nm st \<noteq> None \<longrightarrow>
        (\<exists>later. events (snd (grub_disk_open (pre @ d # post) probe now nm st))
                   = events st @ dev_open_calls (raw_name nm) (length pre + 1) @ later)
        \<and> (e = GRUB_ERR_NONE \<and> pre \<noteq> []
             \<and> GRUB_DISK_SECTOR_BITS \<le> log_sector_size disk2
             \<and> log_sector_size disk2 \<le> GRUB_DISK_CACHE_BITS + GRUB_DISK_SECTOR_BITS
             \<and> (\<forall>i. find_part_sep nm = Some i \<longrightarrow> probe disk2 (drop (i + 1) nm) \<noteq> []) \<longrightarrow>
             map_option snd (fst (grub_disk_open (pre @ d # post) probe now nm st))
               = Some (Some (length pre))
             \<and> grub_errno (snd (grub_disk_open (pre @ d # post) probe now nm st)) = GRUB_ERR_NONE)
        \<and> (e \<noteq> GRUB_ERR_NONE \<and> e \<noteq> GRUB_ERR_UNKNOWN_DEVICE \<longrightarrow>
             fst (grub_disk_open (pre @ d # post) probe now nm st) = None
             \<and> grub_errno (snd (grub_disk_open (pre @ d # post) probe now nm st)) = e
             \<and> events (snd (grub_disk_open (pre @ d # post) probe now nm st))
                 = events st @ dev_open_calls (raw_name nm) (length pre + 1))
        \<and> fst (grub_disk_open pre probe now nm st) = None
        \<and> grub_errno (snd (grub_disk_open pre probe now nm st)) = GRUB_ERR_UNKNOWN_DEVICE
        \<and> grub_errmsg (snd (grub_disk_open pre probe now nm st))
            = (''disk '' @ [CHR 0x60] @ ''%s'' @ [CHR 0x27] @ '' not found'', [nm])
        \<and> events (snd (grub_disk_open pre probe now nm st))
            = events st @ dev_open_calls (raw_name nm) (length pre))"
proof (intro conjI impI)
  assume "open_allocs nm st = None"
  from open_allocs_None [OF this, of devs probe now]
  show "fst (grub_disk_open devs probe now nm st) = None"
    and "grub_errno (snd (grub_disk_open devs probe now nm st)) = GRUB_ERR_OUT_OF_MEMORY"
    and "events (snd (grub_disk_open devs probe now nm st)) = events st"
    by simp_all
next
  assume "open_allocs nm st \<noteq> None"
  then obtain st2 where a: "open_allocs nm st = Some st2" by blast
  note hw = open_allocs_Some(1) [OF a] and ev = open_allocs_Some(2) [OF a]
    and op = open_allocs_Some(3) [OF a]
  let ?raw = "raw_name nm"
  let ?R = "grub_disk_open (pre @ d # post) probe now nm st"
  let ?st3 = "st2\<lparr>hw := h1,
                 grub_errno := (if pre = [] then grub_errno st2 else GRUB_ERR_NONE),
                 events := events st2 @ map (\<lambda>j. Ev_dev_open j ?raw) [0..<0 + length pre]\<rparr>"
  from pre hw have pre2: "declined pre ?raw (new_disk ?raw) (hw st2) = Some (disk1, h1)"
    by simp
  note walk = declined_walk [OF pre2, of _ 0]
  have calls: "map (\<lambda>j. Ev_dev_open j ?raw) [0..<0 + n] = dev_open_calls ?raw n" for n
    by (simp add: dev_open_calls_def)
  have calls_Suc: "dev_open_calls ?raw n @ [Ev_dev_open n ?raw] = dev_open_calls ?raw (n + 1)" for n
    by (simp add: dev_open_calls_def)
  have ev3: "events ?st3 = events st @ dev_open_calls ?raw (length pre)"
    using ev by (simp add: dev_open_calls_def)
  let ?st4 = "?st3\<lparr>hw := h2,
                  grub_errno := (if e = GRUB_ERR_NONE then grub_errno ?st3 else e),
                  events := events ?st3 @ [Ev_dev_open (length pre) ?raw]\<rparr>"
  have ev4: "events ?st4 = events st @ dev_open_calls ?raw (length pre + 1)"
    using ev3 calls_Suc [of "length pre"] by simp
  have step: "open_walk (pre @ d # post) 0 ?raw (new_disk ?raw) st2
      = (if e = GRUB_ERR_NONE then (Walk_found (length pre), disk2, ?st4)
         else if e = GRUB_ERR_UNKNOWN_DEVICE
         then open_walk post (Suc (length pre)) ?raw disk2 (?st4\<lparr>grub_errno := GRUB_ERR_NONE\<rparr>)
         else (Walk_fail, disk2, ?st4))"
    unfolding walk using d by (simp add: Let_def)
  show "\<exists>later. events (snd ?R) = events st @ dev_open_calls ?raw (length pre + 1) @ later"
  proof -
    obtain w disk5 st5 where
      w: "open_walk (pre @ d # post) 0 ?raw (new_disk ?raw) st2 = (w, disk5, st5)"
      by (cases "open_walk (pre @ d # post) 0 ?raw (new_disk ?raw) st2")
    have "\<exists>new. events st5 = events ?st4 @ new"
    proof (cases "e = GRUB_ERR_NONE \<or> e \<noteq> GRUB_ERR_UNKNOWN_DEVICE")
      case True
      with step w have "st5 = ?st4" by (auto split: if_splits)
      then show ?thesis by simp
    next
      case False
      with step w have "open_walk post (Suc (length pre)) ?raw disk2
                          (?st4\<lparr>grub_errno := GRUB_ERR_NONE\<rparr>) = (w, disk5, st5)"
        by simp
      from open_walk_events [of post "Suc (length pre)" ?raw disk2
                                "?st4\<lparr>grub_errno := GRUB_ERR_NONE\<rparr>"] this
      show ?thesis by auto
    qed
    then obtain new where new: "events st5 = events st @ dev_open_calls ?raw (length pre + 1) @ new"
      unfolding ev4 by auto
    have "\<exists>xs. events (snd ?R) = events st5 @ xs"
      unfolding op w
      by (cases w; cases "find_part_sep nm")
         (simp_all add: Let_def open_finish_def grub_disk_close_def)
    with new show ?thesis by auto
  qed
  show "map_option snd (fst ?R) = Some (Some (length pre))"
    and "grub_errno (snd ?R) = GRUB_ERR_NONE"
    if ok: "e = GRUB_ERR_NONE \<and> pre \<noteq> []
             \<and> GRUB_DISK_SECTOR_BITS \<le> log_sector_size disk2
             \<and> log_sector_size disk2 \<le> GRUB_DISK_CACHE_BITS + GRUB_DISK_SECTOR_BITS
             \<and> (\<forall>i. find_part_sep nm = Some i \<longrightarrow> probe disk2 (drop (i + 1) nm) \<noteq> [])"
    using ok unfolding op step
    by (cases "find_part_sep nm"; simp add: open_finish_def Let_def)+
  show "fst ?R = None" and "grub_errno (snd ?R) = e"
    and "events (snd ?R) = events st @ dev_open_calls ?raw (length pre + 1)"
    if bad: "e \<noteq> GRUB_ERR_NONE \<and> e \<noteq> GRUB_ERR_UNKNOWN_DEVICE"
    using bad ev4 unfolding op step
    by (simp_all add: open_finish_def grub_disk_close_def)
  have wend: "open_walk pre 0 ?raw (new_disk ?raw) st2 = (Walk_end, disk1, ?st3)"
    using declined_walk [OF pre2, of "[]" 0] by simp
  show "fst (grub_disk_open pre probe now nm st) = None"
    and "grub_errno (snd (grub_disk_open pre probe now nm st)) = GRUB_ERR_UNKNOWN_DEVICE"
    and "grub_errmsg (snd (grub_disk_open pre probe now nm st))
            = (''disk '' @ [CHR 0x60] @ ''%s'' @ [CHR 0x27] @ '' not found'', [nm])"
    and "events (snd (grub_disk_open pre probe now nm st))
            = events st @ dev_open_calls ?raw (length pre)"
    using ev3 unfolding open_allocs_Some(3) [OF a] wend
    by (simp_all add: open_finish_def grub_disk_close_def grub_error_def)
qed


theorem C9_driver_walk_witness:
  "declined [hd_dev] (raw_name ''cd0'') (new_disk (raw_name ''cd0'')) (hw boot_state)
     = Some (new_disk ''cd0'', ())
   \<and> dev_open bad_dev (raw_name ''cd0'') (new_disk ''cd0'') () = (GRUB_ERR_IO, new_disk ''cd0'', ())
   \<and> open_allocs ''cd0'' boot_state \<noteq> None
   \<and> fst (grub_disk_open [hd_dev, bad_dev, any_dev] one_partition 0 ''cd0'' boot_state) = None
   \<and> grub_errno (snd (grub_disk_open [hd_dev, bad_dev, any_dev] one_partition 0 ''cd0'' boot_state))
       = GRUB_ERR_IO
   \<and> events (snd (grub_disk_open [hd_dev, bad_dev, any_dev] one_partition 0 ''cd0'' boot_state))
       = [Ev_dev_open 0 ''cd0'', Ev_dev_open 1 ''cd0'']
   \<and> grub_errno (snd (grub_disk_open [hd_dev] one_partition 0 ''cd0'' boot_state))
       = GRUB_ERR_UNKNOWN_DEVICE
   \<and> declined [no_dev] (raw_name ''hd0'') (new_disk (raw_name ''hd0'')) (hw boot_state)
       = Some (new_disk ''hd0'', ())
   \<and> dev_open hd_dev (raw_name ''hd0'') (new_disk ''hd0'') ()
       = (GRUB_ERR_NONE, (new_disk ''hd0'')\<lparr>total_sectors := 128\<rparr>, ())
   \<and> map_option snd (fst (grub_disk_open [no_dev, hd_dev, bad_dev] one_partition 0 ''hd0''
                              boot_state)) = Some (Some 1)
   \<and> grub_errno (snd (grub_disk_open [no_dev, hd_dev, bad_dev] one_partition 0 ''hd0'' boot_state))
       = GRUB_ERR_NONE"
proof -
  have r: "raw_name ''cd0'' = ''cd0''" "raw_name ''hd0'' = ''hd0''"
    by (simp_all add: raw_name_def)
  have p: "declined [hd_dev] (raw_name ''cd0'') (new_disk (raw_name ''cd0'')) (hw boot_state)
             = Some (new_disk ''cd0'', ())"
    by (simp add: r hd_dev_def any_dev_def)
  have d: "dev_open bad_dev (raw_name ''cd0'') (new_disk ''cd0'') ()
             = (GRUB_ERR_IO, new_disk ''cd0'', ())"
    by (simp add: bad_dev_def any_dev_def)
  have a: "open_allocs nm boot_state \<noteq> None" for nm
    by (simp add: open_allocs_def boot_state_def grub_malloc_def split: option.splits)
  have e: "events boot_state = []"
    by (simp add: boot_state_def)
  have c: "dev_open_calls ''cd0'' (length [hd_dev] + 1) = [Ev_dev_open 0 ''cd0'', Ev_dev_open 1 ''cd0'']"
    by (simp add: dev_open_calls_def upt_rec)
  note t = C9_driver_walk [OF p d, of "[hd_dev, bad_dev, any_dev]" one_partition 0 "[any_dev]"]
  from t a [of "''cd0''"]
  have 1: "fst (grub_disk_open ([hd_dev] @ bad_dev # [any_dev]) one_partition 0 ''cd0'' boot_state)
             = None"
    and 2: "grub_errno (snd (grub_disk_open ([hd_dev] @ bad_dev # [any_dev]) one_partition 0 ''cd0''
           boot_state)) = GRUB_ERR_IO"
    and 3: "events (snd (grub_disk_open ([hd_dev] @ bad_dev # [any_dev]) one_partition 0 ''cd0''
           boot_state)) = events boot_state @ dev_open_calls (raw_name ''cd0'') (length [hd_dev] + 1)"
    and 4: "grub_errno (snd (grub_disk_open [hd_dev] one_partition 0 ''cd0'' boot_state))
           = GRUB_ERR_UNKNOWN_DEVICE"
    by simp_all
  have p': "declined [no_dev] (raw_name ''hd0'') (new_disk (raw_name ''hd0'')) (hw boot_state)
             = Some (new_disk ''hd0'', ())"
    by (simp add: r no_dev_def any_dev_def)
  have d': "dev_open hd_dev (raw_name ''hd0'') (new_disk ''hd0'') ()
             = (GRUB_ERR_NONE, (new_disk ''hd0'')\<lparr>total_sectors := 128\<rparr>, ())"
    by (simp add: r hd_dev_def any_dev_def)
  have s: "GRUB_DISK_SECTOR_BITS \<le> log_sector_size ((new_disk ''hd0'')\<lparr>total_sectors := 128\<rparr>)"
    "log_sector_size ((new_disk ''hd0'')\<lparr>total_sectors := 128\<rparr>)
       \<le> GRUB_DISK_CACHE_BITS + GRUB_DISK_SECTOR_BITS"
    "find_part_sep ''hd0'' = None"
    by (simp_all add: new_disk_def)
  note t' = C9_driver_walk [OF p' d', of "[no_dev, hd_dev, bad_dev]" one_partition 0 "[bad_dev]"]
  from t' a [of "''hd0''"] s
  have 5: "map_option snd (fst (grub_disk_open ([no_dev] @ hd_dev # [bad_dev]) one_partition 0
             ''hd0'' boot_state)) = Some (Some (length [no_dev]))"
    and 6: "grub_errno (snd (grub_disk_open ([no_dev] @ hd_dev # [bad_dev]) one_partition 0 ''hd0''
             boot_state)) = GRUB_ERR_NONE"
    by simp_all
  from p d a [of "''cd0''"] 1 2 3 4 p' d' 5 6 show ?thesis
    unfolding r c e by simp
qed


section \<open>The small read\<close>

lemma const_table_upd: "(\<lambda>_. c)(i := c) = (\<lambda>_. c)"
  by (rule ext) simp

lemma take_drop_pattern_bytes:
  "take m (drop k (pattern_bytes a n)) = pattern_bytes (a + k) (min m (n - k))"
  by (rule nth_equalityI) (auto simp add: pattern_bytes_def add.assoc simp del: upt_rec_numeral)

lemma take_pattern_bytes: "take m (pattern_bytes a n) = pattern_bytes a (min m n)"
  using take_drop_pattern_bytes [of m 0 a n] by simp

lemma unat_and_mask: "unat ((s :: 'a::len word) AND mask n) = unat s mod 2 ^ n"
  unfolding take_bit_eq_mask [symmetric] unsigned_take_bit_eq by (rule take_bit_eq_mod)

lemma sub_and_not_mask: "(s :: 'a::len word) - (s AND NOT (mask n)) = s AND mask n"
proof -
  have le: "s AND NOT (mask n) \<le> s"
    by (simp add: word_le_nat_alt unat_and_not_mask)
  have "unat (s - (s AND NOT (mask n))) = unat s - 2 ^ n * (unat s div 2 ^ n)"
    using le by (simp add: unat_sub unat_and_not_mask)
  also have "\<dots> = unat s mod 2 ^ n"
    by (simp add: minus_mult_div_eq_mod)
  finally have "unat (s - (s AND NOT (mask n))) = unat (s AND mask n)"
    by (simp add: unat_and_mask)
  then show ?thesis
    by (rule word_unat_eq_iff [THEN iffD2])
qed

lemma unat_sector_size:
  "L \<le> 15 \<Longrightarrow> unat (push_bit L 1 :: 64 word) = 2 ^ L"
proof -
  assume "L \<le> 15"
  then have "(2 :: nat) ^ L \<le> 2 ^ 15" by (intro power_increasing) simp_all
  then have "unat (1 :: 64 word) * 2 ^ L < 2 ^ LENGTH(64)" by simp
  from unat_push_bit_bounded [OF this] show ?thesis by simp
qed

lemma ucast_down_up:
  assumes "unat (y :: 64 word) < 2 ^ 32"
  shows "unat (ucast (ucast y :: 32 word) :: 64 word) = unat y"
proof -
  have "unat (ucast y :: 32 word) = take_bit 32 (unat y)"
    by (simp only: unsigned_ucast_eq len_of_numeral_defs) (simp add: unsigned_take_bit_eq)
  also from assms have "\<dots> = unat y"
    by (simp only: take_bit_nat_eq_self_iff)
  finally have a: "unat (ucast y :: 32 word) = unat y" .
  have "unat (ucast (ucast y :: 32 word) :: 64 word) = take_bit 64 (unat (ucast y :: 32 word))"
    by (simp only: unsigned_ucast_eq len_of_numeral_defs) (simp add: unsigned_take_bit_eq)
  also have "\<dots> = take_bit 64 (unat y)"
    unfolding a ..
  also have "\<dots> = unat y"
  proof -
    from assms have "unat y < 2 ^ 64" by simp
    then show ?thesis by (simp only: take_bit_nat_eq_self_iff)
  qed
  finally show ?thesis .
qed

lemma native_sector_split:
  fixes u b k :: nat
  assumes L: "9 \<le> L"
  shows "(512 * u + b) div 2 ^ L = (u + b div 512) div 2 ^ (L - 9)"
    and "(512 * u + b) mod 2 ^ L = b mod 512 + (u + b div 512) mod 2 ^ (L - 9) * 512"
proof -
  from L have e: "(2 :: nat) ^ L = 512 * 2 ^ (L - 9)"
    using power_add [of "2 :: nat" 9 "L - 9"] by simp
  have d: "(512 * u + b) div 512 = u + b div 512" by simp
  have m: "(512 * u + b) mod 512 = b mod 512" by simp
  show "(512 * u + b) div 2 ^ L = (u + b div 512) div 2 ^ (L - 9)"
    unfolding e div_mult2_eq d ..
  show "(512 * u + b) mod 2 ^ L = b mod 512 + (u + b div 512) mod 2 ^ (L - 9) * 512"
    unfolding e mod_mult2_eq d m by simp
qed

lemma fallback_window_exact:
  assumes L: "9 \<le> log_sector_size disk" "log_sector_size disk \<le> 15"
    and nowrap: "unat sec + unat off div 512 < 2 ^ 64"
    and sz: "unat sz < 2 ^ 32"
    and w: "fallback_window disk sec off sz = (aligned_sector, off2, num)"
  shows "unat (transform_sector disk aligned_sector)
           = (512 * unat sec + unat off) div 2 ^ log_sector_size disk"
    and "unat off2 = (512 * unat sec + unat off) mod 2 ^ log_sector_size disk"
    and "unat (ucast num :: grub_size_t)
           = ((512 * unat sec + unat off) mod 2 ^ log_sector_size disk + unat sz
                + 2 ^ log_sector_size disk - 1) div 2 ^ log_sector_size disk"
proof -
  let ?L = "log_sector_size disk"
  let ?k = "?L - 9"
  let ?s1 = "unat sec + unat off div 512"
  let ?sec1 = "sec + drop_bit GRUB_DISK_SECTOR_BITS off"
  let ?off1 = "off AND (push_bit GRUB_DISK_SECTOR_BITS 1 - 1)"
  let ?al = "?sec1 AND NOT (push_bit ?k 1 - 1)"
  let ?off2 = "?off1 + push_bit GRUB_DISK_SECTOR_BITS (?sec1 - ?al)"
  let ?sum = "sz + ?off2 + push_bit ?L 1 - 1"
  from w have "(?al, ?off2, ucast (drop_bit ?L ?sum)) = (aligned_sector, off2, num)"
    unfolding fallback_window_def Let_def .
  then have al: "aligned_sector = ?al" and off2: "off2 = ?off2"
    and num: "num = ucast (drop_bit ?L ?sum)"
    by (auto simp only: prod.inject)
  from L have k6: "?k \<le> 6" by simp
  have s1: "unat ?sec1 = ?s1"
  proof -
    have "unat (drop_bit GRUB_DISK_SECTOR_BITS off) = unat off div 512"
      by (simp add: unat_drop_bit_div)
    with nowrap have "unat sec + unat (drop_bit GRUB_DISK_SECTOR_BITS off) < 2 ^ LENGTH(64)"
      by simp
    from unat_add_lem [THEN iffD1, OF this] \<open>unat (drop_bit GRUB_DISK_SECTOR_BITS off) = unat off div 512\<close>
    show ?thesis by simp
  qed
  have o1: "unat ?off1 = unat off mod 512"
    using sector_offset_unat [of off] by simp
  have mk: "(push_bit ?k 1 - 1 :: 64 word) = mask ?k"
    by (simp add: mask_eq_exp_minus_1)
  have ua: "unat ?al = 2 ^ ?k * (?s1 div 2 ^ ?k)"
    unfolding mk unat_and_not_mask s1 ..
  have "?sec1 - ?al = ?sec1 AND mask ?k"
    unfolding mk by (rule sub_and_not_mask)
  then have ud: "unat (?sec1 - ?al) = ?s1 mod 2 ^ ?k"
    by (simp only: unat_and_mask s1)
  have small: "?s1 mod 2 ^ ?k < 2 ^ 6"
  proof -
    have "?s1 mod 2 ^ ?k < 2 ^ ?k" by simp
    also from k6 have "(2 :: nat) ^ ?k \<le> 2 ^ 6" by (intro power_increasing) simp_all
    finally show ?thesis .
  qed
  then have "unat (?sec1 - ?al) * 2 ^ 9 < 2 ^ LENGTH(64)"
    unfolding ud by simp
  from unat_push_bit_bounded [OF this]
  have up: "unat (push_bit GRUB_DISK_SECTOR_BITS (?sec1 - ?al)) = ?s1 mod 2 ^ ?k * 512"
    unfolding ud by simp
  have "unat ?off1 + unat (push_bit GRUB_DISK_SECTOR_BITS (?sec1 - ?al)) < 2 ^ LENGTH(64)"
    unfolding o1 up using small by simp
  from unat_add_lem [THEN iffD1, OF this]
  have uo2: "unat ?off2 = unat off mod 512 + ?s1 mod 2 ^ ?k * 512"
    unfolding o1 up .
  note split = native_sector_split [OF L(1), of "unat sec" "unat off"]
  show "unat off2 = (512 * unat sec + unat off) mod 2 ^ ?L"
    unfolding off2 uo2 split ..
  have "unat (transform_sector disk aligned_sector) = unat ?al div 2 ^ ?k"
    unfolding al transform_sector_def by (simp only: unat_drop_bit_div)
  also have "\<dots> = ?s1 div 2 ^ ?k"
    unfolding ua by simp
  finally show "unat (transform_sector disk aligned_sector)
           = (512 * unat sec + unat off) div 2 ^ ?L"
    unfolding split .
  have o2lt: "unat ?off2 < 2 ^ 16"
    unfolding uo2 using small by simp
  have ul: "unat (push_bit ?L 1 :: 64 word) = 2 ^ ?L"
    using L(2) by (rule unat_sector_size)
  from L(2) have l15: "(2 :: nat) ^ ?L \<le> 2 ^ 15" by (intro power_increasing) simp_all
  have "unat sz + unat ?off2 < 2 ^ LENGTH(64)"
    using sz o2lt by simp
  from unat_add_lem [THEN iffD1, OF this]
  have u1: "unat (sz + ?off2) = unat sz + unat ?off2" .
  have "unat (sz + ?off2) + unat (push_bit ?L 1 :: 64 word) < 2 ^ LENGTH(64)"
    unfolding u1 ul using sz o2lt l15 by simp
  from unat_add_lem [THEN iffD1, OF this]
  have u2: "unat (sz + ?off2 + push_bit ?L 1) = unat sz + unat ?off2 + 2 ^ ?L"
    unfolding u1 ul .
  note u2
  moreover have "1 \<le> (2 :: nat) ^ ?L" by simp
  ultimately have "1 \<le> unat (sz + ?off2 + push_bit ?L 1)"
    by linarith
  then have "unat (1 :: 64 word) \<le> unat (sz + ?off2 + push_bit ?L 1)"
    by (simp only: unat_1)
  then have "(1 :: 64 word) \<le> sz + ?off2 + push_bit ?L 1"
    by (simp only: word_le_nat_alt)
  from unat_sub [OF this]
  have u3: "unat ?sum = unat sz + unat ?off2 + 2 ^ ?L - 1"
    unfolding u2 by simp
  have u4: "unat (drop_bit ?L ?sum) = (unat sz + unat ?off2 + 2 ^ ?L - 1) div 2 ^ ?L"
    by (simp only: unat_drop_bit_div u3)
  have "(unat sz + unat ?off2 + 2 ^ ?L - 1) div 2 ^ ?L \<le> unat sz + unat ?off2 + 2 ^ ?L - 1"
    by (rule div_le_dividend)
  also have "\<dots> < 2 ^ 32 + 2 ^ 16 + 2 ^ 15"
    using sz o2lt l15 by simp
  finally have lt32: "unat (drop_bit ?L ?sum) < 2 ^ 33"
    unfolding u4 by simp
  have "(unat sz + unat ?off2 + 2 ^ ?L - 1) div 2 ^ ?L < 2 ^ 32"
  proof -
    from L(1) have "(2 :: nat) ^ 9 \<le> 2 ^ ?L" by (intro power_increasing) simp_all
    then have "(unat sz + unat ?off2 + 2 ^ ?L - 1) div 2 ^ ?L
                 \<le> (unat sz + unat ?off2 + 2 ^ ?L - 1) div 2 ^ 9"
      by (intro div_le_mono2) simp_all
    also have "\<dots> \<le> (2 ^ 32 + 2 ^ 16 + 2 ^ 15) div 2 ^ 9"
      using sz o2lt l15 by (intro div_le_mono) simp
    also have "\<dots> < (2 ^ 32 :: nat)" by simp
    finally show ?thesis .
  qed
  then have n32: "unat (drop_bit ?L ?sum) < 2 ^ 32"
    unfolding u4 .
  have "unat (ucast num :: grub_size_t) = unat (drop_bit ?L ?sum)"
    unfolding num using n32 by (rule ucast_down_up)
  then show "unat (ucast num :: grub_size_t)
           = ((512 * unat sec + unat off) mod 2 ^ ?L + unat sz + 2 ^ ?L - 1) div 2 ^ ?L"
    unfolding u4 uo2 split by (simp add: add.commute add.left_commute)
qed

lemma malloc_next_ok:
  "next_alloc_ok st \<Longrightarrow> grub_malloc st = (True, st\<lparr>mm := tl (mm st)\<rparr>)"
  by (cases "mm st") (simp_all add: next_alloc_ok_def grub_malloc_def)

lemma word_of_unat: "unat (w :: 'a::len word) = n \<Longrightarrow> w = of_nat n"
  by auto

lemma window_last:
  fixes a n N :: nat
  assumes "0 < n" "0 < N"
  shows "a div N + (a mod N + n + N - 1) div N = (a + n - 1) div N + 1"
proof -
  from assms(1) obtain n' where n: "n = Suc n'" by (cases n) simp_all
  have "a + n' = (a mod N + n') + N * (a div N)" by simp
  then have "(a + n') div N = ((a mod N + n') + N * (a div N)) div N"
    by (rule arg_cong)
  also have "\<dots> = a div N + (a mod N + n') div N"
    using assms(2) by (intro div_mult_self2) simp
  finally have 1: "(a + n') div N = a div N + (a mod N + n') div N" .
  have 2: "(a mod N + n' + N) div N = (a mod N + n') div N + 1"
    using assms(2) by (intro div_add_self2) simp
  have "a mod N + n + N - 1 = a mod N + n' + N" "a + n - 1 = a + n'"
    unfolding n by simp_all
  with 1 2 show ?thesis by simp
qed

lemma read_small_fallback_window:
  assumes ok: "next_alloc_ok s"
    and L: "9 \<le> log_sector_size disk" "log_sector_size disk \<le> 15"
    and nowrap: "unat sec + unat off div 512 < 2 ^ 64"
    and sz: "unat sz < 2 ^ 32"
  shows "(let a = 512 * unat sec + unat off;
              N = 2 ^ log_sector_size disk;
              first = a div N;
              count = (a mod N + unat sz + N - 1) div N;
              (err, bytes, s2) =
                 call_dev_read dev disk (of_nat first) (of_nat count)
                   (s\<lparr>grub_errno := GRUB_ERR_NONE, mm := tl (mm s)\<rparr>)
          in read_small_fallback dev disk sec off sz s
               = (if err \<noteq> GRUB_ERR_NONE then (err, [], s2)
                  else (GRUB_ERR_NONE, take (unat sz) (drop (a mod N) bytes), s2)))"
proof -
  obtain aligned_sector off2 num where w: "fallback_window disk sec off sz = (aligned_sector, off2, num)"
    by (cases "fallback_window disk sec off sz")
  note ex = fallback_window_exact [OF L nowrap sz w]
  have t: "transform_sector disk aligned_sector
             = of_nat ((512 * unat sec + unat off) div 2 ^ log_sector_size disk)"
    using ex(1) by (rule word_of_unat)
  have n: "(ucast num :: grub_size_t)
             = of_nat (((512 * unat sec + unat off) mod 2 ^ log_sector_size disk + unat sz
                + 2 ^ log_sector_size disk - 1) div 2 ^ log_sector_size disk)"
    using ex(3) by (rule word_of_unat)
  from ok have "next_alloc_ok (s\<lparr>grub_errno := GRUB_ERR_NONE\<rparr>)"
    by (simp add: next_alloc_ok_def)
  from malloc_next_ok [OF this]
  have m: "grub_malloc (s\<lparr>grub_errno := GRUB_ERR_NONE\<rparr>)
            = (True, s\<lparr>grub_errno := GRUB_ERR_NONE, mm := tl (mm s)\<rparr>)"
    by simp
  have "(let (err, bytes, s2) =
                   call_dev_read dev disk (transform_sector disk aligned_sector) (ucast num)
                     (s\<lparr>grub_errno := GRUB_ERR_NONE, mm := tl (mm s)\<rparr>)
            in read_small_fallback dev disk sec off sz s
                 = (if err \<noteq> GRUB_ERR_NONE then (err, [], s2)
                    else (GRUB_ERR_NONE, take (unat sz) (drop (unat off2) bytes), s2)))"
    using m w
    by (auto simp add: read_small_fallback_def call_dev_read_def Let_def split: prod.splits)
  then show ?thesis
    unfolding t n ex(2) Let_def .
qed

lemma read_head_small_read_fails:
  assumes adj: "grub_disk_adjust_range disk rsec roff rsz st0 = (GRUB_ERR_NONE, rs, ro, st1)"
    and h: "ro \<noteq> 0 \<or> rs AND (GRUB_DISK_CACHE_SIZE - 1) \<noteq> 0"
    and s: "(let start_sector = rs AND NOT (GRUB_DISK_CACHE_SIZE - 1);
                 pos = push_bit GRUB_DISK_SECTOR_BITS (rs - start_sector);
                 room = push_bit GRUB_DISK_CACHE_BITS GRUB_DISK_SECTOR_SIZE - pos - ro;
                 ln = (if room > rsz then rsz else room)
             in grub_disk_read_small dev disk start_sector (ro + pos) ln st1) = (e, bs, st2)"
    and e: "e \<noteq> GRUB_ERR_NONE"
  shows "grub_disk_read dev disk rsec roff rsz st0 = (e, bs, st2)"
proof -
  from h s e have "read_head dev disk rs ro rsz st1 = (e, bs, rs, ro, rsz, st2)"
    unfolding read_head_def Let_def by simp
  with adj e show ?thesis
    by (simp add: grub_disk_read_def)
qed

lemma read_tail_small_read_fails:
  assumes adj: "grub_disk_adjust_range disk rsec roff rsz st0 = (GRUB_ERR_NONE, rs, ro, st1)"
    and h: "read_head dev disk rs ro rsz st1 = (GRUB_ERR_NONE, o1, sec1, off1, sz1, st2)"
    and b: "read_body dev disk sec1 sz1 st2 = (GRUB_ERR_NONE, o2, sec2, sz2, st3)"
    and z: "sz2 \<noteq> 0"
    and s: "grub_disk_read_small dev disk sec2 0 sz2 st3 = (e, o3, st4)"
    and e: "e \<noteq> GRUB_ERR_NONE"
  shows "grub_disk_read dev disk rsec roff rsz st0 = (e, o1 @ o2 @ o3, st4)"
  using adj h b z s e by (simp add: grub_disk_read_def)


text \<open>
  C7, as stated: on a miss the whole cluster is read whenever the cluster fits
  entirely within the disk. On a disk of exactly 64 sectors the cluster at
  sector 0 fits (\<open>0 + 64 \<le> 64\<close>), yet the only driver call is a read of one
  native sector, and nothing is stored in the cache.
\<close>

theorem C7_last_cluster_counterexample:
  "fst (grub_disk_cache_fetch (dev_ident any_dev) (ident one_cluster_disk) 0
          (grub_disk_cache_table boot_state)) = None
   \<and> total_sectors one_cluster_disk \<noteq> GRUB_DISK_SIZE_UNKNOWN
   \<and> unat (0 :: grub_disk_addr_t) + unat GRUB_DISK_CACHE_SIZE
        \<le> unat (push_bit (log_sector_size one_cluster_disk - GRUB_DISK_SECTOR_BITS)
                   (total_sectors one_cluster_disk))
   \<and> fst (grub_disk_read_small any_dev one_cluster_disk 0 0 512 boot_state) = GRUB_ERR_NONE
   \<and> events (snd (snd (grub_disk_read_small any_dev one_cluster_disk 0 0 512 boot_state)))
        = [Ev_dev_read 0 1]
   \<and> data (grub_disk_cache_table
              (snd (snd (grub_disk_read_small any_dev one_cluster_disk 0 0 512 boot_state)))
              (slot_of (dev_ident any_dev) (ident one_cluster_disk) 0)) = None"
  by (simp add: grub_disk_read_small_def read_small_fallback_def fallback_window_def
        grub_disk_cache_fetch_def key_match_def call_dev_read_def transform_sector_def
        grub_malloc_def any_dev_def one_cluster_disk_def boot_state_def initial_table_def
        empty_slot_def Let_def)

text \<open>
  C7, amended: on a cache miss (with the temporary buffers allocated)
  \<^verbatim>\<open>grub_disk_read_small\<close> calls the driver for the whole cluster, and on success
  delivers the slice and stores the cluster, whenever \<open>total_sectors\<close> is unknown
  or the cluster ends strictly before the end of the disk
  (\<open>sector + 64 < total_sectors << (L - 9)\<close> in 64-bit arithmetic). Only when the
  cluster reaches or passes the end of the disk, or the read of the cluster
  fails, does it fall back to a minimal aligned read of native sectors, which
  copies the requested slice and leaves the cache table as it is; a driver error
  in that fallback is fatal to the request.

  The fallback is described from the byte address \<open>a = 512 * sector + offset\<close> of
  the first requested byte and the size \<open>N = 2 ^ L\<close> of a native sector, for a
  sector size that \<^verbatim>\<open>grub_disk_open\<close> admits (\<open>9 \<le> L \<le> 15\<close>), a sector number that
  does not wrap around and a size below \<open>2 ^ 32\<close>: the driver is called once,
  for the native sector \<open>a div N\<close>, which holds the first requested byte, and
  for the \<open>(a mod N + size + N - 1) div N\<close> sectors up to the one that holds the
  last requested byte, \<open>(a + size - 1) div N\<close>; the bytes delivered are the \<open>size\<close>
  bytes at the offset \<open>a mod N\<close> of what it has read. An error of that call is the
  result of the small read, and \<^verbatim>\<open>grub_disk_read\<close> returns the error of its small
  read at once, before and after the loop over whole clusters.
\<close>

theorem C7_small_read_on_miss:
  assumes miss: "fst (grub_disk_cache_fetch (dev_ident dev) (ident disk) sec
                        (grub_disk_cache_table st)) = None"
    and alloc: "next_alloc_ok st"
  shows
    "(let st1 = st\<lparr>grub_disk_cache_table :=
                     snd (grub_disk_cache_fetch (dev_ident dev) (ident disk) sec
                            (grub_disk_cache_table st)),
                   mm := tl (mm st)\<rparr>;
          whole = (total_sectors disk = GRUB_DISK_SIZE_UNKNOWN
                   \<or> sec + GRUB_DISK_CACHE_SIZE
                       < push_bit (log_sector_size disk - GRUB_DISK_SECTOR_BITS) (total_sectors disk));
          (err, bytes, st2) =
             call_dev_read dev disk (transform_sector disk sec)
               (push_bit (GRUB_DISK_CACHE_BITS + GRUB_DISK_SECTOR_BITS - log_sector_size disk) 1) st1;
          r = grub_disk_read_small dev disk sec off sz st
      in (whole \<and> err = GRUB_ERR_NONE \<longrightarrow>
            r = (GRUB_ERR_NONE, take (unat sz) (drop (unat off) bytes),
                 snd (grub_disk_cache_store (dev_ident dev) (ident disk) sec bytes st2)))
         \<and> (whole \<and> err \<noteq> GRUB_ERR_NONE \<longrightarrow> r = read_small_fallback dev disk sec off sz st2)
         \<and> (\<not> whole \<longrightarrow> r = read_small_fallback dev disk sec off sz st1))
     \<and> (\<forall>s. grub_disk_cache_table (snd (snd (read_small_fallback dev disk sec off sz s)))
               = grub_disk_cache_table s)
     \<and> (\<forall>s. next_alloc_ok s
              \<and> GRUB_DISK_SECTOR_BITS \<le> log_sector_size disk
              \<and> log_sector_size disk \<le> GRUB_DISK_CACHE_BITS + GRUB_DISK_SECTOR_BITS
              \<and> unat sec + unat off div 512 < 2 ^ 64 \<and> unat sz < 2 ^ 32 \<longrightarrow>
           (let a = 512 * unat sec + unat off;
                N = 2 ^ log_sector_size disk;
                first = a div N;
                count = (a mod N + unat sz + N - 1) div N;
                (err, bytes, s2) =
                   call_dev_read dev disk (of_nat first) (of_nat count)
                     (s\<lparr>grub_errno := GRUB_ERR_NONE, mm := tl (mm s)\<rparr>)
            in read_small_fallback dev disk sec off sz s
                 = (if err \<noteq> GRUB_ERR_NONE then (err, [], s2)
                    else (GRUB_ERR_NONE, take (unat sz) (drop (a mod N) bytes), s2))
               \<and> (0 < unat sz \<longrightarrow> first + count = (a + unat sz - 1) div N + 1)))
     \<and> (\<forall>rsec roff rsz st0 rs ro st1 e bs st2.
           grub_disk_adjust_range disk rsec roff rsz st0 = (GRUB_ERR_NONE, rs, ro, st1)
           \<and> (ro \<noteq> 0 \<or> rs AND (GRUB_DISK_CACHE_SIZE - 1) \<noteq> 0)
           \<and> (let start_sector = rs AND NOT (GRUB_DISK_CACHE_SIZE - 1);
                    pos = push_bit GRUB_DISK_SECTOR_BITS (rs - start_sector);
                    room = push_bit GRUB_DISK_CACHE_BITS GRUB_DISK_SECTOR_SIZE - pos - ro;
                    ln = (if room > rsz then rsz else room)
                in grub_disk_read_small dev disk start_sector (ro + pos) ln st1) = (e, bs, st2)
           \<and> e \<noteq> GRUB_ERR_NONE \<longrightarrow>
           grub_disk_read dev disk rsec roff rsz st0 = (e, bs, st2))
     \<and> (\<forall>rsec roff rsz st0 rs ro st1 o1 sec1 off1 sz1 st2 o2 sec2 sz2 st3 e o3 st4.
           grub_disk_adjust_range disk rsec roff rsz st0 = (GRUB_ERR_NONE, rs, ro, st1)
           \<and> read_head dev disk rs ro rsz st1 = (GRUB_ERR_NONE, o1, sec1, off1, sz1, st2)
           \<and> read_body dev disk sec1 sz1 st2 = (GRUB_ERR_NONE, o2, sec2, sz2, st3)
           \<and> sz2 \<noteq> 0
           \<and> grub_disk_read_small dev disk sec2 0 sz2 st3 = (e, o3, st4)
           \<and> e \<noteq> GRUB_ERR_NONE \<longrightarrow>
           grub_disk_read dev disk rsec roff rsz st0 = (e, o1 @ o2 @ o3, st4))"
proof -
  obtain tbl where f: "grub_disk_cache_fetch (dev_ident dev) (ident disk) sec
                         (grub_disk_cache_table st) = (None, tbl)"
    using miss
    by (cases "grub_disk_cache_fetch (dev_ident dev) (ident disk) sec (grub_disk_cache_table st)")
       simp
  from alloc have "next_alloc_ok (st\<lparr>grub_disk_cache_table := tbl\<rparr>)"
    by (simp add: next_alloc_ok_def)
  from malloc_next_ok [OF this]
  have m: "grub_malloc (st\<lparr>grub_disk_cache_table := tbl\<rparr>)
             = (True, st\<lparr>grub_disk_cache_table := tbl, mm := tl (mm st)\<rparr>)"
    by simp
  have a: "(let st1 = st\<lparr>grub_disk_cache_table :=
                     snd (grub_disk_cache_fetch (dev_ident dev) (ident disk) sec
                            (grub_disk_cache_table st)),
                   mm := tl (mm st)\<rparr>;
          whole = (total_sectors disk = GRUB_DISK_SIZE_UNKNOWN
                   \<or> sec + GRUB_DISK_CACHE_SIZE
                       < push_bit (log_sector_size disk - GRUB_DISK_SECTOR_BITS) (total_sectors disk));
          (err, bytes, st2) =
             call_dev_read dev disk (transform_sector disk sec)
               (push_bit (GRUB_DISK_CACHE_BITS + GRUB_DISK_SECTOR_BITS - log_sector_size disk) 1) st1;
          r = grub_disk_read_small dev disk sec off sz st
      in (whole \<and> err = GRUB_ERR_NONE \<longrightarrow>
            r = (GRUB_ERR_NONE, take (unat sz) (drop (unat off) bytes),
                 snd (grub_disk_cache_store (dev_ident dev) (ident disk) sec bytes st2)))
         \<and> (whole \<and> err \<noteq> GRUB_ERR_NONE \<longrightarrow> r = read_small_fallback dev disk sec off sz st2)
         \<and> (\<not> whole \<longrightarrow> r = read_small_fallback dev disk sec off sz st1))"
    by (simp add: grub_disk_read_small_def f m Let_def split: prod.splits)
  have c: "(let a = 512 * unat sec + unat off;
                N = 2 ^ log_sector_size disk;
                first = a div N;
                count = (a mod N + unat sz + N - 1) div N;
                (err, bytes, s2) =
                   call_dev_read dev disk (of_nat first) (of_nat count)
                     (s\<lparr>grub_errno := GRUB_ERR_NONE, mm := tl (mm s)\<rparr>)
            in read_small_fallback dev disk sec off sz s
                 = (if err \<noteq> GRUB_ERR_NONE then (err, [], s2)
                    else (GRUB_ERR_NONE, take (unat sz) (drop (a mod N) bytes), s2))
               \<and> (0 < unat sz \<longrightarrow> first + count = (a + unat sz - 1) div N + 1))"
    if h: "next_alloc_ok s
              \<and> GRUB_DISK_SECTOR_BITS \<le> log_sector_size disk
              \<and> log_sector_size disk \<le> GRUB_DISK_CACHE_BITS + GRUB_DISK_SECTOR_BITS
              \<and> unat sec + unat off div 512 < 2 ^ 64 \<and> unat sz < 2 ^ 32"
    for s :: "'a grub_state"
  proof -
    from h have ok: "next_alloc_ok s" and L: "9 \<le> log_sector_size disk" "log_sector_size disk \<le> 15"
      and nowrap: "unat sec + unat off div 512 < 2 ^ 64" and sz: "unat sz < 2 ^ 32"
      by simp_all
    have last: "0 < unat sz \<longrightarrow>
        (512 * unat sec + unat off) div 2 ^ log_sector_size disk
          + ((512 * unat sec + unat off) mod 2 ^ log_sector_size disk + unat sz
               + 2 ^ log_sector_size disk - 1) div 2 ^ log_sector_size disk
        = (512 * unat sec + unat off + unat sz - 1) div 2 ^ log_sector_size disk + 1"
      by (intro impI window_last) simp_all
    from read_small_fallback_window [OF ok L nowrap sz, of dev] last show ?thesis
      unfolding Let_def by (simp split: prod.splits)
  qed
  have h: "grub_disk_read dev disk rsec roff rsz st0 = (e, bs, st2)"
    if "grub_disk_adjust_range disk rsec roff rsz st0 = (GRUB_ERR_NONE, rs, ro, st1)
           \<and> (ro \<noteq> 0 \<or> rs AND (GRUB_DISK_CACHE_SIZE - 1) \<noteq> 0)
           \<and> (let start_sector = rs AND NOT (GRUB_DISK_CACHE_SIZE - 1);
                    pos = push_bit GRUB_DISK_SECTOR_BITS (rs - start_sector);
                    room = push_bit GRUB_DISK_CACHE_BITS GRUB_DISK_SECTOR_SIZE - pos - ro;
                    ln = (if room > rsz then rsz else room)
                in grub_disk_read_small dev disk start_sector (ro + pos) ln st1) = (e, bs, st2)
           \<and> e \<noteq> GRUB_ERR_NONE"
    for rsec roff rsz rs ro e bs and st0 st1 st2 :: "'a grub_state"
    using that read_head_small_read_fails [of disk rsec roff rsz st0 rs ro st1 dev e bs st2]
    by blast
  have t: "grub_disk_read dev disk rsec roff rsz st0 = (e, o1 @ o2 @ o3, st4)"
    if "grub_disk_adjust_range disk rsec roff rsz st0 = (GRUB_ERR_NONE, rs, ro, st1)
           \<and> read_head dev disk rs ro rsz st1 = (GRUB_ERR_NONE, o1, sec1, off1, sz1, st2)
           \<and> read_body dev disk sec1 sz1 st2 = (GRUB_ERR_NONE, o2, sec2, sz2, st3)
           \<and> sz2 \<noteq> 0
           \<and> grub_disk_read_small dev disk sec2 0 sz2 st3 = (e, o3, st4)
           \<and> e \<noteq> GRUB_ERR_NONE"
    for rsec roff rsz rs ro o1 sec1 off1 sz1 o2 sec2 sz2 e o3
      and st0 st1 st2 st3 st4 :: "'a grub_state"
    using that
      read_tail_small_read_fails [of disk rsec roff rsz st0 rs ro st1 dev o1 sec1 off1 sz1 st2
        o2 sec2 sz2 st3 e o3 st4]
    by blast
  from a c h t read_small_fallback_table show ?thesis
    by (intro conjI allI impI) blast+
qed


theorem C7_small_read_on_miss_witness:
  "fst (grub_disk_cache_fetch (dev_ident pattern_dev) (ident big_sector_disk) 0
          (grub_disk_cache_table boot_state)) = None
   \<and> next_alloc_ok boot_state
   \<and> \<not> (total_sectors big_sector_disk = GRUB_DISK_SIZE_UNKNOWN
          \<or> 0 + GRUB_DISK_CACHE_SIZE
              < push_bit (log_sector_size big_sector_disk - GRUB_DISK_SECTOR_BITS)
                  (total_sectors big_sector_disk))
   \<and> grub_disk_read_small pattern_dev big_sector_disk 0 5000 100 boot_state
       = (GRUB_ERR_NONE, pattern_bytes 5000 100, boot_state\<lparr>events := [Ev_dev_read 1 1]\<rparr>)"
proof -
  have miss: "fst (grub_disk_cache_fetch (dev_ident pattern_dev) (ident big_sector_disk) 0
                (grub_disk_cache_table boot_state)) = None"
    by (simp add: grub_disk_cache_fetch_def key_match_def boot_state_def
          initial_table_def empty_slot_def Let_def)
  have alloc: "next_alloc_ok boot_state"
    by (simp add: next_alloc_ok_def boot_state_def)
  have whole: "\<not> (total_sectors big_sector_disk = GRUB_DISK_SIZE_UNKNOWN
          \<or> 0 + GRUB_DISK_CACHE_SIZE
              < push_bit (log_sector_size big_sector_disk - GRUB_DISK_SECTOR_BITS)
                  (total_sectors big_sector_disk))"
    by (simp add: big_sector_disk_def)
  let ?st1 = "boot_state\<lparr>grub_disk_cache_table :=
                 snd (grub_disk_cache_fetch (dev_ident pattern_dev) (ident big_sector_disk) 0
                        (grub_disk_cache_table boot_state)),
               mm := tl (mm boot_state)\<rparr>"
  have st1: "?st1 = boot_state"
    by (simp add: grub_disk_cache_fetch_def key_match_def boot_state_def
          initial_table_def empty_slot_def Let_def pattern_dev_def any_dev_def big_sector_disk_def)
  have L: "GRUB_DISK_SECTOR_BITS \<le> log_sector_size big_sector_disk"
    "log_sector_size big_sector_disk \<le> GRUB_DISK_CACHE_BITS + GRUB_DISK_SECTOR_BITS"
    "unat (0 :: grub_disk_addr_t) + unat (5000 :: grub_off_t) div 512 < 2 ^ 64"
    "unat (100 :: grub_size_t) < 2 ^ 32"
    by (simp_all add: big_sector_disk_def)
  have call: "call_dev_read pattern_dev big_sector_disk 1 1
                (boot_state\<lparr>grub_errno := GRUB_ERR_NONE, mm := tl (mm boot_state)\<rparr>)
              = (GRUB_ERR_NONE, pattern_bytes 4096 4096, boot_state\<lparr>events := [Ev_dev_read 1 1]\<rparr>)"
    by (simp add: call_dev_read_def pattern_dev_def any_dev_def big_sector_disk_def boot_state_def)
  note t = C7_small_read_on_miss [OF miss alloc, of 5000 100]
  from t whole have r: "grub_disk_read_small pattern_dev big_sector_disk 0 5000 100 boot_state
              = read_small_fallback pattern_dev big_sector_disk 0 5000 100 ?st1"
    unfolding Let_def by (simp split: prod.splits)
  have hyp: "next_alloc_ok boot_state
              \<and> GRUB_DISK_SECTOR_BITS \<le> log_sector_size big_sector_disk
              \<and> log_sector_size big_sector_disk \<le> GRUB_DISK_CACHE_BITS + GRUB_DISK_SECTOR_BITS
              \<and> unat (0 :: grub_disk_addr_t) + unat (5000 :: grub_off_t) div 512 < 2 ^ 64
              \<and> unat (100 :: grub_size_t) < 2 ^ 32"
    using alloc L by blast
  note t [THEN conjunct2, THEN conjunct2, THEN conjunct1, THEN spec, of boot_state, THEN mp,
           OF hyp]
  moreover have "log_sector_size big_sector_disk = 12"
    by (simp add: big_sector_disk_def)
  ultimately have "read_small_fallback pattern_dev big_sector_disk 0 5000 100 boot_state
      = (GRUB_ERR_NONE, pattern_bytes 5000 100, boot_state\<lparr>events := [Ev_dev_read 1 1]\<rparr>)"
    by (simp add: Let_def call take_drop_pattern_bytes)
  with r st1 miss alloc whole show ?thesis
    by simp
qed


section \<open>A failing cache store during a read\<close>

text \<open>
  C3 on a read of 10 bytes at offset 100 of sector 1 of an uncached disk, when
  the allocation of the cache buffer in \<^verbatim>\<open>grub_disk_cache_store\<close> fails: the
  cluster is read from the driver and the ten bytes at byte address 612 are
  delivered, the store fails with \<^verbatim>\<open>GRUB_ERR_OUT_OF_MEMORY\<close> and leaves the
  slot empty, and \<^verbatim>\<open>grub_disk_read\<close> returns \<^verbatim>\<open>GRUB_ERR_OUT_OF_MEMORY\<close>, the
  value still in \<^verbatim>\<open>grub_errno\<close>, where the claim says it returns success.
\<close>

theorem C3_store_failure_reaches_caller:
  "fst (grub_disk_read pattern_dev two_cluster_disk 1 100 10 second_alloc_fails)
     = GRUB_ERR_OUT_OF_MEMORY
   \<and> fst (snd (grub_disk_read pattern_dev two_cluster_disk 1 100 10 second_alloc_fails))
       = [100, 101, 102, 103, 104, 105, 106, 107, 108, 109]
   \<and> events (snd (snd (grub_disk_read pattern_dev two_cluster_disk 1 100 10 second_alloc_fails)))
       = [Ev_dev_read 0 64]
   \<and> data (grub_disk_cache_table
              (snd (snd (grub_disk_read pattern_dev two_cluster_disk 1 100 10 second_alloc_fails)))
              (slot_of (dev_ident pattern_dev) (ident two_cluster_disk) 0)) = None"
proof -
  have adj: "grub_disk_adjust_range two_cluster_disk 1 100 10 second_alloc_fails
               = (GRUB_ERR_NONE, 1, 100, second_alloc_fails)"
    by (simp add: grub_disk_adjust_range_def two_cluster_disk_def one_cluster_disk_def Let_def
          word_le_nat_alt word_less_nat_alt)
  have bytes: "pattern_bytes 612 10 = [100, 101, 102, 103, 104, 105, 106, 107, 108, 109]"
    by (simp add: pattern_bytes_def upt_rec)
  have small: "grub_disk_read_small pattern_dev two_cluster_disk 0 612 10 second_alloc_fails
      = (GRUB_ERR_NONE, [100, 101, 102, 103, 104, 105, 106, 107, 108, 109],
         second_alloc_fails\<lparr>mm := [], grub_errno := GRUB_ERR_OUT_OF_MEMORY,
                              events := [Ev_dev_read 0 64]\<rparr>)"
    using bytes
    by (simp add: grub_disk_read_small_def grub_disk_cache_fetch_def key_match_def
          call_dev_read_def transform_sector_def grub_malloc_def grub_disk_cache_store_def
          pattern_dev_def any_dev_def two_cluster_disk_def one_cluster_disk_def
          second_alloc_fails_def boot_state_def initial_table_def empty_slot_def Let_def
          take_drop_pattern_bytes const_table_upd)
  have head: "read_head pattern_dev two_cluster_disk 1 100 10 second_alloc_fails
      = (GRUB_ERR_NONE, [100, 101, 102, 103, 104, 105, 106, 107, 108, 109], 1, 110, 0,
         second_alloc_fails\<lparr>mm := [], grub_errno := GRUB_ERR_OUT_OF_MEMORY,
                              events := [Ev_dev_read 0 64]\<rparr>)"
    using small by (simp add: read_head_def Let_def)
  have body: "read_body pattern_dev two_cluster_disk 1 0 s = (GRUB_ERR_NONE, [], 1, 0, s)" for s
    by (simp add: read_body.simps [of _ _ _ 0])
  have hook: "\<not> read_hook two_cluster_disk"
    by (simp add: two_cluster_disk_def one_cluster_disk_def)
  have r: "grub_disk_read pattern_dev two_cluster_disk 1 100 10 second_alloc_fails
      = (GRUB_ERR_OUT_OF_MEMORY, [100, 101, 102, 103, 104, 105, 106, 107, 108, 109],
         second_alloc_fails\<lparr>mm := [], grub_errno := GRUB_ERR_OUT_OF_MEMORY,
                              events := [Ev_dev_read 0 64]\<rparr>)"
    by (simp add: grub_disk_read_def adj head body hook Let_def)
  show ?thesis
    unfolding r
    by (simp add: second_alloc_fails_def boot_state_def initial_table_def empty_slot_def)
qed


text \<open>
  The same happens when the store fails while the cache is populated after an
  agglomerated read of a whole cluster.
\<close>

lemma store_failure_after_agglomerated_read:
  "fst (grub_disk_read pattern_dev two_cluster_disk 0 0 32768 first_alloc_fails)
     = GRUB_ERR_OUT_OF_MEMORY
   \<and> fst (snd (grub_disk_read pattern_dev two_cluster_disk 0 0 32768 first_alloc_fails))
       = pattern_bytes 0 CLUSTER_BYTES
   \<and> events (snd (snd (grub_disk_read pattern_dev two_cluster_disk 0 0 32768 first_alloc_fails)))
       = [Ev_dev_read 0 64]"
proof -
  have adj: "grub_disk_adjust_range two_cluster_disk 0 0 32768 first_alloc_fails
               = (GRUB_ERR_NONE, 0, 0, first_alloc_fails)"
    by (simp add: grub_disk_adjust_range_def two_cluster_disk_def one_cluster_disk_def Let_def
          word_le_nat_alt word_less_nat_alt)
  have head: "read_head pattern_dev two_cluster_disk 0 0 32768 first_alloc_fails
      = (GRUB_ERR_NONE, [], 0, 0, 32768, first_alloc_fails)"
    by (simp add: read_head_def)
  have scan: "agglomerate_scan (dev_ident pattern_dev) (ident two_cluster_disk) 0 1 0 initial_table
                = (None, 1, initial_table)"
    by (simp add: agglomerate_scan.simps [of _ _ _ _ 0] agglomerate_scan.simps [of _ _ _ _ 1]
          grub_disk_cache_fetch_def key_match_def pattern_dev_def any_dev_def
          initial_table_def empty_slot_def Let_def)
  let ?st = "first_alloc_fails\<lparr>mm := [], grub_errno := GRUB_ERR_OUT_OF_MEMORY,
                                events := [Ev_dev_read 0 64]\<rparr>"
  have step: "read_body_step pattern_dev two_cluster_disk 0 32768 first_alloc_fails
      = (GRUB_ERR_NONE, pattern_bytes 0 CLUSTER_BYTES, 64, 0, ?st)"
    using scan
    by (simp add: read_body_step_def first_alloc_fails_def boot_state_def
          call_dev_read_def transform_sector_def store_clusters_def grub_disk_cache_store_def
          grub_malloc_def pattern_dev_def any_dev_def two_cluster_disk_def one_cluster_disk_def
          Let_def initial_table_def empty_slot_def const_table_upd take_pattern_bytes)
  have body0: "read_body pattern_dev two_cluster_disk 64 0 s = (GRUB_ERR_NONE, [], 64, 0, s)" for s
    by (simp add: read_body.simps [of _ _ _ 0])
  have body: "read_body pattern_dev two_cluster_disk 0 32768 first_alloc_fails
      = (GRUB_ERR_NONE, pattern_bytes 0 CLUSTER_BYTES, 64, 0, ?st)"
    by (simp add: read_body.simps [of _ _ _ 32768] step body0)
  have hook: "\<not> read_hook two_cluster_disk"
    by (simp add: two_cluster_disk_def one_cluster_disk_def)
  have r: "grub_disk_read pattern_dev two_cluster_disk 0 0 32768 first_alloc_fails
      = (GRUB_ERR_OUT_OF_MEMORY, pattern_bytes 0 CLUSTER_BYTES, ?st)"
    by (simp add: grub_disk_read_def adj head body hook Let_def)
  show ?thesis
    unfolding r by simp
qed


section \<open>The read hook\<close>

lemma hook_events_append [simp]: "hook_events (xs @ ys) = hook_events xs @ hook_events ys"
  by (induction xs rule: hook_events.induct) simp_all

lemma hook_events_map [simp]:
  "hook_events (map (\<lambda>(s, off, cl). Ev_read_hook s off cl) cs) = cs"
  by (induction cs) auto

lemma hook_calls_trace:
  "unat off < 512 \<Longrightarrow> hook_trace_ok (hook_calls s off l) s (unat off) (unat l)"
proof (induction s off l rule: hook_calls.induct)
  case (1 s off l)
  show ?case
  proof (cases "l = 0")
    case True
    then show ?thesis by (simp add: hook_calls.simps [of s off 0])
  next
    case False
    let ?whole = "GRUB_DISK_SECTOR_SIZE - off"
    let ?len = "if ?whole > l then l else ?whole"
    from "1.prems" have "off \<le> GRUB_DISK_SECTOR_SIZE"
      by (simp add: word_le_nat_alt)
    then have c0: "unat ?whole = 512 - unat off"
      by (simp add: unat_sub)
    have cl: "unat ?len = min (512 - unat off) (unat l)"
    proof (cases "?whole > l")
      case True
      then have "unat l < unat ?whole" by (simp only: word_less_nat_alt)
      with c0 True show ?thesis by (simp only: if_True min_def) simp
    next
      case False
      then have "unat ?whole \<le> unat l" by (simp only: word_le_nat_alt not_less)
      with c0 False show ?thesis by (simp only: if_False min_def) simp
    qed
    have "?len \<le> l" by auto
    then have sub: "unat (l - ?len) = unat l - unat ?len"
      by (rule unat_sub)
    from False have nz: "unat l \<noteq> 0"
      by (simp add: unat_eq_0)
    have "hook_trace_ok (hook_calls (s + 1) 0 (l - ?len)) (s + 1) (unat (0 :: grub_off_t))
            (unat (l - ?len))"
      by (rule "1.IH" [OF False refl refl]) simp
    with cl sub nz False show ?thesis
      by (simp add: hook_calls.simps [of s off l] Let_def)
  qed
qed

lemma hook_trace_sum:
  "hook_trace_ok cs s off remaining \<Longrightarrow> sum_list (map (\<lambda>(s, off, cl). unat cl) cs) = remaining"
  by (induction cs s off remaining rule: hook_trace_ok.induct) auto

lemma hook_trace_length:
  "hook_trace_ok cs s off remaining \<Longrightarrow> off < 512 \<Longrightarrow>
     length cs = (if remaining = 0 then 0 else (off + remaining + 511) div 512)"
proof (induction cs arbitrary: s off remaining)
  case Nil
  then show ?case by simp
next
  case (Cons c rest)
  obtain s' off' cl where c: "c = (s', off', cl)"
    by (cases c)
  with Cons.prems have r: "remaining \<noteq> 0" and cl: "unat cl = min (512 - off) remaining"
    and rest: "hook_trace_ok rest (s + 1) 0 (remaining - unat cl)"
    by auto
  from Cons.IH [OF rest] have
    l: "length rest = (if remaining - unat cl = 0 then 0
                       else (0 + (remaining - unat cl) + 511) div 512)"
    by simp
  show ?case
  proof (cases "remaining \<le> 512 - off")
    case True
    with cl l r Cons.prems(2) show ?thesis
      by (simp add: min_def)
  next
    case False
    with cl have "unat cl = 512 - off" by (simp add: min_def)
    with l False r Cons.prems(2) show ?thesis
      by simp arith
  qed
qed

lemma hook_trace_sectors:
  "hook_trace_ok cs s off remaining \<Longrightarrow> i < length cs \<Longrightarrow> fst (cs ! i) = s + of_nat i"
proof (induction cs arbitrary: s off remaining i)
  case Nil
  then show ?case by simp
next
  case (Cons c rest)
  obtain s' off' cl where c: "c = (s', off', cl)"
    by (cases c)
  show ?case
  proof (cases i)
    case 0
    with c Cons.prems show ?thesis by simp
  next
    case (Suc j)
    with c Cons.prems have "hook_trace_ok rest (s + 1) 0 (remaining - unat cl)" "j < length rest"
      by auto
    from Cons.IH [OF this] Suc show ?thesis
      by (simp add: algebra_simps)
  qed
qed

lemma store_events [simp]:
  "events (snd (grub_disk_cache_store dev disk sec buf st)) = events st"
  by (simp add: grub_disk_cache_store_def grub_malloc_def Let_def split: list.splits prod.splits)

lemma call_dev_read_hooks:
  "call_dev_read dev disk sec n st = (err, buf, st') \<Longrightarrow>
     hook_events (events st') = hook_events (events st)"
  by (auto simp add: call_dev_read_def split: prod.splits)

lemma read_small_fallback_hooks:
  "read_small_fallback dev disk sec off sz st = (err, out, st') \<Longrightarrow>
     hook_events (events st') = hook_events (events st)"
  by (auto simp add: read_small_fallback_def Let_def split: prod.splits if_splits
        dest!: call_dev_read_hooks malloc_eventsD)

lemma read_small_hooks:
  "grub_disk_read_small dev disk sec off sz st = (err, out, st') \<Longrightarrow>
     hook_events (events st') = hook_events (events st)"
  by (auto simp add: grub_disk_read_small_def Let_def split: prod.splits if_splits option.splits
        dest!: call_dev_read_hooks malloc_eventsD read_small_fallback_hooks)

lemma read_head_hooks:
  "read_head dev disk sec off sz st = (err, out, sec', off', sz', st') \<Longrightarrow>
     hook_events (events st') = hook_events (events st)"
  by (auto simp add: read_head_def Let_def split: prod.splits if_splits
        dest!: read_small_hooks)

lemma store_clusters_events [simp]:
  "events (store_clusters dev disk sec buf n st) = events st"
proof -
  have "events (fold (\<lambda>i s. snd (grub_disk_cache_store (dev_ident dev) (ident disk)
                         (sec + push_bit GRUB_DISK_CACHE_BITS (of_nat i))
                         (drop (i * CLUSTER_BYTES) buf) s)) xs st) = events st" for xs
    by (induction xs arbitrary: st) simp_all
  then show ?thesis by (simp add: store_clusters_def)
qed

lemma read_body_step_hooks:
  "read_body_step dev disk sec sz st = (err, out, sec', sz', st') \<Longrightarrow>
     hook_events (events st') = hook_events (events st)"
  by (auto simp add: read_body_step_def Let_def split: prod.splits if_splits
        dest!: call_dev_read_hooks)

lemma read_body_hooks:
  "read_body dev disk sec sz st = (err, out, sec', sz', st') \<Longrightarrow>
     hook_events (events st') = hook_events (events st)"
proof (induction dev disk sec sz st arbitrary: err out sec' sz' st' rule: read_body.induct)
  case (1 dev disk sec sz st)
  show ?case
  proof (cases "push_bit GRUB_DISK_SECTOR_BITS GRUB_DISK_CACHE_SIZE \<le> sz")
    case False
    with "1.prems" show ?thesis by (simp add: read_body.simps [of dev disk sec sz st])
  next
    case True
    obtain err1 out1 sec1 sz1 st1 where
      s: "read_body_step dev disk sec sz st = (err1, out1, sec1, sz1, st1)"
      by (cases "read_body_step dev disk sec sz st")
    then have e1: "hook_events (events st1) = hook_events (events st)"
      by (rule read_body_step_hooks)
    show ?thesis
    proof (cases "err1 = GRUB_ERR_NONE")
      case False
      with True s e1 "1.prems" show ?thesis
        by (simp add: read_body.simps [of dev disk sec sz st])
    next
      case ok: True
      obtain err2 out2 sec2 sz2 st2 where
        r: "read_body dev disk sec1 sz1 st1 = (err2, out2, sec2, sz2, st2)"
        by (cases "read_body dev disk sec1 sz1 st1")
      from ok have "\<not> err1 \<noteq> GRUB_ERR_NONE" by simp
      from "1.IH" [OF True s [symmetric] refl refl refl this r]
      have "hook_events (events st2) = hook_events (events st1)" .
      with True s e1 ok r "1.prems" show ?thesis
        by (simp add: read_body.simps [of dev disk sec sz st])
    qed
  qed
qed

lemma adjust_range_events:
  "grub_disk_adjust_range disk sec off sz st = (err, sec', off', st') \<Longrightarrow> events st' = events st"
  by (auto simp add: grub_disk_adjust_range_def Let_def split: prod.splits if_splits)

lemma adjust_range_offset:
  "grub_disk_adjust_range disk sec off sz st = (err, sec', off', st') \<Longrightarrow> unat off' < 512"
  using sector_offset_unat [of off]
  by (auto simp add: grub_disk_adjust_range_def Let_def split: prod.splits if_splits)

lemma adjust_range_failure:
  "grub_disk_adjust_range disk sec off sz st = (err, sec', off', st') \<Longrightarrow>
     err \<noteq> GRUB_ERR_NONE \<Longrightarrow> grub_errno st' = GRUB_ERR_OUT_OF_RANGE"
  by (auto simp add: grub_disk_adjust_range_def grub_error_def Let_def
        split: prod.splits if_splits)

text \<open>
  C5: when \<^verbatim>\<open>grub_disk_read\<close> returns \<^verbatim>\<open>GRUB_ERR_NONE\<close> on a disk whose read hook
  is set, the calls of the hook made by the read are those of the hook loop
  for the adjusted sector and offset and the requested size: one call per
  logical sector touched, for the sectors \<open>real_sector\<close>, \<open>real_sector + 1\<close>, ... in
  this order; the first with the offset \<open>real_offset\<close> and the length
  \<open>min (512 - real_offset) remaining\<close>, the later ones with offset 0 and length
  \<open>min 512 remaining\<close>; and the lengths add up to the requested size.
\<close>

theorem C5_read_hook_calls:
  assumes hook: "read_hook disk"
    and ok: "grub_disk_read dev disk sec off sz st = (GRUB_ERR_NONE, out, st')"
  shows "(let (err, real_sector, real_offset, st1) = grub_disk_adjust_range disk sec off sz st;
              calls = hook_calls real_sector real_offset sz
          in err = GRUB_ERR_NONE
             \<and> unat real_offset < 512
             \<and> hook_events (events st') = hook_events (events st) @ calls
             \<and> hook_trace_ok calls real_sector (unat real_offset) (unat sz)
             \<and> length calls = (if sz = 0 then 0 else (unat real_offset + unat sz + 511) div 512)
             \<and> (\<forall>i < length calls. fst (calls ! i) = real_sector + of_nat i)
             \<and> (unat real_sector + length calls \<le> 2 ^ 64 \<longrightarrow>
                  (\<forall>i < length calls. unat (fst (calls ! i)) = unat real_sector + i))
             \<and> sum_list (map (\<lambda>(s, off, cl). unat cl) calls) = unat sz)"
proof -
  obtain err rs ro st1 where adj: "grub_disk_adjust_range disk sec off sz st = (err, rs, ro, st1)"
    by (cases "grub_disk_adjust_range disk sec off sz st")
  have err: "err = GRUB_ERR_NONE"
  proof (rule ccontr)
    assume e: "err \<noteq> GRUB_ERR_NONE"
    with adj ok have "grub_errno st1 = GRUB_ERR_NONE"
      by (auto simp add: grub_disk_read_def)
    with adjust_range_failure [OF adj e] show False by simp
  qed
  have ro: "unat ro < 512"
    using adj by (rule adjust_range_offset)
  obtain err1 out1 sec1 off1 sz1 st2 where
    h: "read_head dev disk rs ro sz st1 = (err1, out1, sec1, off1, sz1, st2)"
    by (cases "read_head dev disk rs ro sz st1")
  obtain err2 out2 sec2 sz2 st3 where
    b: "read_body dev disk sec1 sz1 st2 = (err2, out2, sec2, sz2, st3)"
    by (cases "read_body dev disk sec1 sz1 st2")
  obtain err3 out3 st4 where
    t: "(if sz2 \<noteq> 0 then grub_disk_read_small dev disk sec2 0 sz2 st3
         else (GRUB_ERR_NONE, [], st3)) = (err3, out3, st4)"
    by (cases "if sz2 \<noteq> 0 then grub_disk_read_small dev disk sec2 0 sz2 st3
               else (GRUB_ERR_NONE, [], st3)")
  from ok adj err h b t have e123: "err1 = GRUB_ERR_NONE" "err2 = GRUB_ERR_NONE" "err3 = GRUB_ERR_NONE"
    by (auto simp add: grub_disk_read_def Let_def split: if_splits)
  let ?calls = "hook_calls rs ro sz"
  from ok adj err h b t e123 hook
  have st': "st' = st4\<lparr>events := events st4 @ map (\<lambda>(s, off, cl). Ev_read_hook s off cl) ?calls\<rparr>"
    by (simp add: grub_disk_read_def Let_def)
  have "hook_events (events st4) = hook_events (events st3)"
    using t by (auto split: if_splits dest: read_small_hooks)
  also have "\<dots> = hook_events (events st2)"
    using b by (rule read_body_hooks)
  also have "\<dots> = hook_events (events st1)"
    using h by (rule read_head_hooks)
  also have "\<dots> = hook_events (events st)"
    using adj by (simp add: adjust_range_events)
  finally have ev: "hook_events (events st') = hook_events (events st) @ ?calls"
    by (simp add: st')
  have tr: "hook_trace_ok ?calls rs (unat ro) (unat sz)"
    using ro by (rule hook_calls_trace)
  have len: "length ?calls = (if sz = 0 then 0 else (unat ro + unat sz + 511) div 512)"
    using hook_trace_length [OF tr ro] by (simp add: unat_eq_0)
  have sec: "fst (?calls ! i) = rs + of_nat i" if "i < length ?calls" for i
    using tr that by (rule hook_trace_sectors)
  have nat_sec: "unat (fst (?calls ! i)) = unat rs + i"
    if "unat rs + length ?calls \<le> 2 ^ 64" "i < length ?calls" for i
  proof -
    from that have "unat rs + i < 2 ^ 64" by simp
    then have "unat (rs + of_nat i) = unat rs + i"
      by (simp add: unat_word_ariths unat_of_nat take_bit_eq_mod)
    with sec [OF that(2)] show ?thesis by simp
  qed
  from err ro ev tr len sec nat_sec hook_trace_sum [OF tr] show ?thesis
    by (simp add: adj)
qed

theorem C5_read_hook_calls_witness:
  "read_hook hooked_disk
   \<and> fst (grub_disk_read pattern_dev hooked_disk 1 100 1000 boot_state) = GRUB_ERR_NONE
   \<and> grub_disk_adjust_range hooked_disk 1 100 1000 boot_state
       = (GRUB_ERR_NONE, 1, 100, boot_state)
   \<and> hook_events (events (snd (snd (grub_disk_read pattern_dev hooked_disk 1 100 1000 boot_state))))
       = [(1, 100, 412), (2, 0, 512), (3, 0, 76)]"
proof -
  have hook: "read_hook hooked_disk"
    by (simp add: hooked_disk_def)
  have adj: "grub_disk_adjust_range hooked_disk 1 100 1000 boot_state
               = (GRUB_ERR_NONE, 1, 100, boot_state)"
    by (simp add: grub_disk_adjust_range_def hooked_disk_def two_cluster_disk_def
          one_cluster_disk_def Let_def word_le_nat_alt word_less_nat_alt)
  let ?st = "boot_state\<lparr>grub_disk_cache_table := initial_table(slot_of 1 0 0 :=
                 \<lparr>dev_id = 1, disk_id = 0, sector = 0,
                  data = Some (pattern_bytes 0 CLUSTER_BYTES), lock = False\<rparr>),
               events := [Ev_dev_read 0 64]\<rparr>"
  have small: "grub_disk_read_small pattern_dev hooked_disk 0 612 1000 boot_state
      = (GRUB_ERR_NONE, pattern_bytes 612 1000, ?st)"
    by (simp add: grub_disk_read_small_def grub_disk_cache_fetch_def key_match_def
          call_dev_read_def transform_sector_def grub_malloc_def grub_disk_cache_store_def
          pattern_dev_def any_dev_def hooked_disk_def two_cluster_disk_def one_cluster_disk_def
          boot_state_def initial_table_def empty_slot_def Let_def
          take_drop_pattern_bytes take_pattern_bytes const_table_upd)
  have head: "read_head pattern_dev hooked_disk 1 100 1000 boot_state
      = (GRUB_ERR_NONE, pattern_bytes 612 1000, 3, 76, 0, ?st)"
    using small by (simp add: read_head_def Let_def)
  have body: "read_body pattern_dev hooked_disk 3 0 s = (GRUB_ERR_NONE, [], 3, 0, s)" for s
    by (simp add: read_body.simps [of _ _ _ 0])
  have calls: "hook_calls 1 100 1000 = [(1, 100, 412), (2, 0, 512), (3, 0, 76)]"
    by (simp add: hook_calls.simps [of _ _ 1000] hook_calls.simps [of _ _ 588]
          hook_calls.simps [of _ _ 76] hook_calls.simps [of _ _ 0] Let_def
          word_le_nat_alt word_less_nat_alt)
  have errno: "grub_errno boot_state = GRUB_ERR_NONE"
    by (simp add: boot_state_def)
  have r: "grub_disk_read pattern_dev hooked_disk 1 100 1000 boot_state
      = (GRUB_ERR_NONE, pattern_bytes 612 1000,
         ?st\<lparr>events := [Ev_dev_read 0 64, Ev_read_hook 1 100 412, Ev_read_hook 2 0 512,
                          Ev_read_hook 3 0 76]\<rparr>)"
    by (simp add: grub_disk_read_def adj head body hook calls Let_def errno)
  have ev: "hook_events (events boot_state) = []"
    by (simp add: boot_state_def)
  from C5_read_hook_calls [OF hook r] show ?thesis
    unfolding r by (simp add: adj calls ev hook)
qed


end
